theory Spec2Isabelle
  imports Main
begin

section \<open>The live editing engine of \<open>LivePreview\<close> (src/components/InputArea.tsx)\<close>

text \<open>
  The component keeps a text buffer (\<open>editableCode\<close>), its debounced copy
  (\<open>debouncedCode\<close>), an undo/redo stack (\<open>history\<close>, \<open>historyIndex\<close>) and two
  timers armed by React effects. The embedding makes the React machinery explicit:
  \<^item> component state, refs, props, pending timers and the clock are fields of one record;
  \<^item> an effect body reads state and props from the render it was created in (its closure)
    and writes refs and timers at once, while its \<open>setState\<close> calls only take effect in the
    next render; so every effect body takes the render \<open>r\<close> it closes over and the
    accumulated next state \<open>s\<close>;
  \<^item> an effect runs again exactly when one of its dependencies changed between two renders;
    arrays, objects and functions are compared by identity, which the \<open>...Ver\<close> counters
    stand for;
  \<^item> time is counted in milliseconds; a timer holds its deadline and the values its
    callback closed over.
  A JavaScript string is modelled as a \<open>string\<close>, one \<open>char\<close> for each code unit; only
  equality, emptiness and length of strings are used.
\<close>

subsection \<open>Data\<close>

text \<open>The \<open>Creation\<close> objects handed over by \<open>App\<close> (src/App.tsx, lines 197-203).\<close>

record creation =
  cid :: string
  cname :: string
  html :: string
  originalImage :: "string option"
  timestamp :: nat

text \<open>The closure of the preview-sync timer (lines 585-598).\<close>

record ptimer =
  p_deadline :: nat
  p_code :: string
  p_creation :: "creation option"

text \<open>The closure of the snapshot-capture timer (lines 608-618).\<close>

record stimer =
  s_deadline :: nat
  s_code :: string
  s_history :: "string list"
  s_index :: int

record lp =
  editableCode :: string
  debouncedCode :: string
  isSyncing :: bool
  lastSaved :: "nat option"
  history :: "string list"
  historyIndex :: int
  isInternalChange :: bool
  prevCreationId :: "string option"
  creation :: "creation option"
  creationVer :: nat
  onUpdateVer :: nat
  historyVer :: nat
  previewTimer :: "ptimer option"
  snapshotTimer :: "stimer option"
  clock :: nat
  updates :: "creation list"

datatype error = UndefinedBuffer

subsection \<open>JavaScript array primitives\<close>

text \<open>\<open>xs[i]\<close>: \<open>undefined\<close> (\<open>None\<close>) outside the array.\<close>

definition js_nth :: "'a list \<Rightarrow> int \<Rightarrow> 'a option" where
  "js_nth xs i = (if 0 \<le> i \<and> i < int (length xs) then Some (xs ! nat i) else None)"

text \<open>\<open>xs.slice(0, e)\<close>: a negative end counts from the end of the array.\<close>

definition js_slice0 :: "'a list \<Rightarrow> int \<Rightarrow> 'a list" where
  "js_slice0 xs e = (if e < 0 then take (nat (int (length xs) + e)) xs else take (nat e) xs)"

subsection \<open>The effects\<close>

text \<open>Lines 569-580. \<open>creation?.id !== prevCreationId.current\<close> holds for a null creation
  (\<open>undefined\<close> is neither \<open>null\<close> nor a string); \<open>creation?.id || null\<close> stores \<open>null\<close> for
  an empty id; \<open>if (creation?.html)\<close> skips the reset for empty content.\<close>

definition load_effect :: "lp \<Rightarrow> lp \<Rightarrow> lp" where
  "load_effect r s =
     (case creation r of
        None \<Rightarrow> s\<lparr>prevCreationId := None\<rparr>
      | Some c \<Rightarrow>
          if prevCreationId s \<noteq> Some (cid c) then
            let s1 = s\<lparr>prevCreationId := (if cid c = [] then None else Some (cid c))\<rparr>
            in if html c \<noteq> [] then
                 s1\<lparr>editableCode := html c, debouncedCode := html c,
                    history := [html c], historyVer := historyVer s1 + 1,
                    historyIndex := 0, lastSaved := None\<rparr>
               else s1
          else s)"

text \<open>Lines 582-600, the body up to \<open>setTimeout\<close>; the callback is \<open>fire_preview\<close>.\<close>

definition preview_effect :: "lp \<Rightarrow> lp \<Rightarrow> lp" where
  "preview_effect r s =
     (if editableCode r = debouncedCode r then s
      else s\<lparr>isSyncing := True,
             previewTimer := Some \<lparr>p_deadline = clock s + 800, p_code = editableCode r,
                                    p_creation = creation r\<rparr>\<rparr>)"

text \<open>Lines 602-621, the body up to \<open>setTimeout\<close>; the callback is \<open>fire_snapshot\<close>.\<close>

definition snapshot_effect :: "lp \<Rightarrow> lp \<Rightarrow> lp" where
  "snapshot_effect r s =
     (if isInternalChange s then s\<lparr>isInternalChange := False\<rparr>
      else s\<lparr>snapshotTimer := Some \<lparr>s_deadline = clock s + 1000, s_code = editableCode r,
                                      s_history = history r, s_index = historyIndex r\<rparr>\<rparr>)"

text \<open>The dependency arrays of the three effects, compared between the previous render
  \<open>p\<close> and the current one \<open>r\<close>.\<close>

definition load_deps_changed :: "lp \<Rightarrow> lp \<Rightarrow> bool" where
  "load_deps_changed p r = (creationVer p \<noteq> creationVer r)"

definition preview_deps_changed :: "lp \<Rightarrow> lp \<Rightarrow> bool" where
  "preview_deps_changed p r =
     (editableCode p \<noteq> editableCode r \<or> debouncedCode p \<noteq> debouncedCode r \<or>
      creationVer p \<noteq> creationVer r \<or> onUpdateVer p \<noteq> onUpdateVer r)"

definition snapshot_deps_changed :: "lp \<Rightarrow> lp \<Rightarrow> bool" where
  "snapshot_deps_changed p r =
     (editableCode p \<noteq> editableCode r \<or> historyVer p \<noteq> historyVer r \<or>
      historyIndex p \<noteq> historyIndex r)"

text \<open>One commit: the cleanups (\<open>clearTimeout\<close>) of the effects whose dependencies changed,
  then their bodies in the order of declaration.\<close>

definition effects :: "lp \<Rightarrow> lp \<Rightarrow> lp" where
  "effects p r =
     (let s0 = r\<lparr>previewTimer := (if preview_deps_changed p r then None else previewTimer r),
                snapshotTimer := (if snapshot_deps_changed p r then None else snapshotTimer r)\<rparr>;
          s1 = (if load_deps_changed p r then load_effect r s0 else s0);
          s2 = (if preview_deps_changed p r then preview_effect r s1 else s1);
          s3 = (if snapshot_deps_changed p r then snapshot_effect r s2 else s2)
      in s3)"

text \<open>A render after an event, followed by the render that the effects' own state updates
  cause. A third commit finds no dependency changed (lemma \<open>rerender_stable\<close>).\<close>

definition rerender :: "lp \<Rightarrow> lp \<Rightarrow> lp" where
  "rerender p r = (let s = effects p r in effects r s)"

subsection \<open>The parent component\<close>

text \<open>\<open>handleUpdateCreation\<close> (src/App.tsx, lines 216-219): the updated creation becomes the
  \<open>creation\<close> prop, and \<open>App\<close> renders again, which makes a new \<open>onUpdate\<close> function. The calls
  are recorded in \<open>updates\<close>, oldest first.\<close>

definition onUpdate :: "creation \<Rightarrow> lp \<Rightarrow> lp" where
  "onUpdate u s = s\<lparr>creation := Some u, creationVer := creationVer s + 1,
                    onUpdateVer := onUpdateVer s + 1, updates := updates s @ [u]\<rparr>"

text \<open>\<open>setActiveCreation\<close> with another object or with \<open>null\<close> (\<open>handleSelectCreation\<close>,
  \<open>handleGenerate\<close>, \<open>handleImportFile\<close>, \<open>handleReset\<close>).\<close>

definition set_creation :: "creation option \<Rightarrow> lp \<Rightarrow> lp" where
  "set_creation c s =
     rerender s (s\<lparr>creation := c, creationVer := creationVer s + 1,
                   onUpdateVer := onUpdateVer s + 1\<rparr>)"

text \<open>Any other render of \<open>App\<close>: only the \<open>onUpdate\<close> function is new.\<close>

definition parent_render :: "lp \<Rightarrow> lp" where
  "parent_render s = rerender s (s\<lparr>onUpdateVer := onUpdateVer s + 1\<rparr>)"

subsection \<open>Event handlers\<close>

text \<open>\<open>onChange={setEditableCode}\<close> (line 889).\<close>

definition edit :: "string \<Rightarrow> lp \<Rightarrow> lp" where
  "edit txt s = rerender s (s\<lparr>editableCode := txt\<rparr>)"

text \<open>Lines 631-638. Reading \<open>history[nextIdx]\<close> outside the array gives \<open>undefined\<close>, which
  the editor cannot render (\<open>code.split\<close>, line 448): the error result.\<close>

definition handleUndo :: "lp \<Rightarrow> error + lp" where
  "handleUndo s =
     (if historyIndex s > 0 then
        let nextIdx = historyIndex s - 1
        in (case js_nth (history s) nextIdx of
              None \<Rightarrow> Inl UndefinedBuffer
            | Some v \<Rightarrow> Inr (rerender s (s\<lparr>isInternalChange := True, historyIndex := nextIdx,
                                           editableCode := v\<rparr>)))
      else Inr s)"

text \<open>Lines 640-647.\<close>

definition handleRedo :: "lp \<Rightarrow> error + lp" where
  "handleRedo s =
     (if historyIndex s < int (length (history s)) - 1 then
        let nextIdx = historyIndex s + 1
        in (case js_nth (history s) nextIdx of
              None \<Rightarrow> Inl UndefinedBuffer
            | Some v \<Rightarrow> Inr (rerender s (s\<lparr>isInternalChange := True, historyIndex := nextIdx,
                                           editableCode := v\<rparr>)))
      else Inr s)"

text \<open>Lines 649-659; \<open>App\<close> always passes \<open>onUpdate\<close> (src/App.tsx, line 317).\<close>

definition handleSave :: "lp \<Rightarrow> lp" where
  "handleSave s =
     (case creation s of
        None \<Rightarrow> s
      | Some c \<Rightarrow>
          rerender s ((onUpdate (c\<lparr>html := editableCode s, timestamp := clock s\<rparr>) s)
                        \<lparr>lastSaved := Some (clock s), debouncedCode := editableCode s\<rparr>))"

text \<open>The buttons' \<open>disabled\<close> props (lines 866 and 874).\<close>

definition undo_available :: "lp \<Rightarrow> bool" where
  "undo_available s = (\<not> historyIndex s \<le> 0)"

definition redo_available :: "lp \<Rightarrow> bool" where
  "redo_available s = (\<not> historyIndex s \<ge> int (length (history s)) - 1)"

subsection \<open>Timer callbacks\<close>

text \<open>Lines 585-598.\<close>

definition fire_preview :: "lp \<Rightarrow> lp" where
  "fire_preview s =
     (case previewTimer s of
        None \<Rightarrow> s
      | Some t \<Rightarrow>
          let s1 = s\<lparr>previewTimer := None, debouncedCode := p_code t, isSyncing := False\<rparr>;
              s2 = (case p_creation t of
                      None \<Rightarrow> s1
                    | Some c \<Rightarrow>
                        if p_code t \<noteq> html c then
                          (onUpdate (c\<lparr>html := p_code t, timestamp := clock s\<rparr>) s1)
                            \<lparr>lastSaved := Some (clock s)\<rparr>
                        else s1)
          in rerender s s2)"

text \<open>Lines 610-615, the updater given to \<open>setHistory\<close>.\<close>

definition push_snapshot :: "string list \<Rightarrow> int \<Rightarrow> string \<Rightarrow> string list" where
  "push_snapshot prev idx code =
     (let newHistory = js_slice0 prev (idx + 1) @ [code]
      in if length newHistory > 100 then tl newHistory else newHistory)"

text \<open>Line 609, the guard of the push.\<close>

definition will_push :: "stimer \<Rightarrow> bool" where
  "will_push t = (s_code t \<noteq> [] \<and> length (s_history t) > 0 \<and>
                  Some (s_code t) \<noteq> js_nth (s_history t) (s_index t))"

text \<open>Lines 608-618.\<close>

definition fire_snapshot :: "lp \<Rightarrow> lp" where
  "fire_snapshot s =
     (case snapshotTimer s of
        None \<Rightarrow> s
      | Some t \<Rightarrow>
          let s0 = s\<lparr>snapshotTimer := None\<rparr>;
              s1 = (if will_push t then
                      s0\<lparr>history := push_snapshot (history s0) (s_index t) (s_code t),
                         historyVer := historyVer s0 + 1,
                         historyIndex := min (historyIndex s0 + 1) 99\<rparr>
                    else s0)
          in rerender s s1)"

subsection \<open>Time\<close>

definition fire_preview_if_due :: "lp \<Rightarrow> lp" where
  "fire_preview_if_due s =
     (case previewTimer s of
        None \<Rightarrow> s
      | Some t \<Rightarrow> if p_deadline t \<le> clock s then fire_preview s else s)"

definition fire_snapshot_if_due :: "lp \<Rightarrow> lp" where
  "fire_snapshot_if_due s =
     (case snapshotTimer s of
        None \<Rightarrow> s
      | Some t \<Rightarrow> if s_deadline t \<le> clock s then fire_snapshot s else s)"

text \<open>Two timers due at the same millisecond run in the order they were armed: the
  snapshot timer, whose delay is longer, was armed first.\<close>

definition snapshot_first :: "lp \<Rightarrow> bool" where
  "snapshot_first s =
     (case (previewTimer s, snapshotTimer s) of
        (Some tp, Some ts) \<Rightarrow> s_deadline ts \<le> p_deadline tp
      | _ \<Rightarrow> False)"

text \<open>One millisecond passes; the timers that are due fire.\<close>

definition tick :: "lp \<Rightarrow> lp" where
  "tick s =
     (let s1 = s\<lparr>clock := clock s + 1\<rparr>
      in if snapshot_first s1 then fire_preview_if_due (fire_snapshot_if_due s1)
         else fire_snapshot_if_due (fire_preview_if_due s1))"

primrec advance :: "nat \<Rightarrow> lp \<Rightarrow> lp" where
  "advance 0 s = s"
| "advance (Suc n) s = advance n (tick s)"

subsection \<open>Mounting and runs\<close>

text \<open>The \<open>useState\<close>/\<open>useRef\<close> initial values (lines 547-555) with a null \<open>creation\<close>
  (src/App.tsx, line 81).\<close>

definition initial :: lp where
  "initial = \<lparr>editableCode = [], debouncedCode = [], isSyncing = False, lastSaved = None,
              history = [], historyIndex = -1, isInternalChange = False,
              prevCreationId = None, creation = None, creationVer = 0, onUpdateVer = 0,
              historyVer = 0, previewTimer = None, snapshotTimer = None, clock = 0,
              updates = []\<rparr>"

text \<open>On mount every effect runs once.\<close>

definition mount :: lp where
  "mount = snapshot_effect initial (preview_effect initial (load_effect initial initial))"

datatype event =
    Load "creation option"
  | ParentRender
  | Edit string
  | Undo
  | Redo
  | Save
  | Wait nat

fun step :: "event \<Rightarrow> lp \<Rightarrow> error + lp" where
  "step (Load c) s = Inr (set_creation c s)"
| "step ParentRender s = Inr (parent_render s)"
| "step (Edit txt) s = Inr (edit txt s)"
| "step Undo s = handleUndo s"
| "step Redo s = handleRedo s"
| "step Save s = Inr (handleSave s)"
| "step (Wait n) s = Inr (advance n s)"

fun run :: "lp \<Rightarrow> event list \<Rightarrow> error + lp" where
  "run s [] = Inr s"
| "run s (e # es) = (case step e s of Inl x \<Rightarrow> Inl x | Inr s' \<Rightarrow> run s' es)"

subsection \<open>The preview frames\<close>

text \<open>\<open>key={debouncedCode.length}\<close> (line 896).\<close>

definition iframe_key :: "lp \<Rightarrow> nat" where
  "iframe_key s = length (debouncedCode s)"


definition preview_srcDoc :: "lp \<Rightarrow> string" where
  "preview_srcDoc s = editableCode s"

text \<open>The \<open>sandbox\<close> attributes of the editor-view frame (line 900) and of the preview
  frame (line 929).\<close>

definition editor_sandbox :: string where
  "editor_sandbox = ''allow-scripts allow-forms allow-popups allow-modals allow-same-origin''"

definition preview_sandbox :: string where
  "preview_sandbox = ''allow-scripts allow-forms allow-popups allow-modals allow-same-origin''"

text \<open>A \<open>sandbox\<close> attribute is a set of space-separated tokens.\<close>

fun split_spaces :: "string \<Rightarrow> string \<Rightarrow> string list" where
  "split_spaces acc [] = (if acc = [] then [] else [rev acc])"
| "split_spaces acc (c # cs) =
     (if c = CHR '' '' then (if acc = [] then [] else [rev acc]) @ split_spaces [] cs
      else split_spaces (c # acc) cs)"

definition sandbox_tokens :: "string \<Rightarrow> string set" where
  "sandbox_tokens a = set (split_spaces [] a)"

section \<open>Notions used in the statements and proofs\<close>

text \<open>The load effect runs in the commit from \<open>p\<close> to \<open>r\<close> and resets the state.\<close>

definition load_resets :: "lp \<Rightarrow> lp \<Rightarrow> bool" where
  "load_resets p r = (load_deps_changed p r \<and>
     (case creation r of None \<Rightarrow> False
      | Some c \<Rightarrow> prevCreationId r \<noteq> Some (cid c) \<and> html c \<noteq> []))"

text \<open>The content of the \<open>creation\<close> prop.\<close>

definition loaded_html :: "lp \<Rightarrow> string" where
  "loaded_html r = (case creation r of None \<Rightarrow> [] | Some c \<Rightarrow> html c)"

text \<open>The history is empty with index -1, as on mount, or the index points into it; it
  has at most 100 entries, none of them empty.\<close>

definition hist_inv :: "lp \<Rightarrow> bool" where
  "hist_inv s =
     ((history s = [] \<and> historyIndex s = -1 \<or>
       0 \<le> historyIndex s \<and> historyIndex s < int (length (history s))) \<and>
      length (history s) \<le> 100 \<and> [] \<notin> set (history s))"

text \<open>A pending snapshot timer closed over the current buffer, history and index, and the
  flag of undo and redo is not set between events.\<close>

definition timer_inv :: "lp \<Rightarrow> bool" where
  "timer_inv s =
     ((case snapshotTimer s of
         None \<Rightarrow> True
       | Some t \<Rightarrow> s_code t = editableCode s \<and> s_history t = history s \<and>
                   s_index t = historyIndex s) \<and>
      \<not> isInternalChange s)"

text \<open>The invariant of the reachable states.\<close>

definition lp_inv :: "lp \<Rightarrow> bool" where
  "lp_inv s = (hist_inv s \<and> timer_inv s)"

text \<open>A loaded artifact at rest: the buffer is stabilized and is the content of the artifact
  as \<open>App\<close> holds it, and no preview-sync timer is pending.\<close>

definition settled :: "creation \<Rightarrow> lp \<Rightarrow> bool" where
  "settled c s =
     (creation s = Some c \<and> prevCreationId s = Some (cid c) \<and>
      html c = debouncedCode s \<and> editableCode s = debouncedCode s \<and>
      previewTimer s = None \<and> \<not> isInternalChange s)"

text \<open>The state at time \<open>n\<close> of a burst that began in \<open>s0\<close>, whose last edit, to
  \<open>cur\<close>, was made at time \<open>T\<close>.\<close>

definition pending :: "lp \<Rightarrow> string \<Rightarrow> nat \<Rightarrow> nat \<Rightarrow> lp" where
  "pending s0 cur T n =
     s0\<lparr>editableCode := cur, isSyncing := True,
        previewTimer := (if cur = debouncedCode s0 then None
                         else Some \<lparr>p_deadline = T + 800, p_code = cur,
                                     p_creation = creation s0\<rparr>),
        snapshotTimer := Some \<lparr>s_deadline = T + 1000, s_code = cur,
                                 s_history = history s0, s_index = historyIndex s0\<rparr>,
        clock := n\<rparr>"

text \<open>The artifact handed to \<open>onUpdate\<close> at time \<open>n\<close>: the \<open>creation\<close> prop of \<open>s0\<close> with
  content \<open>cur\<close> (lines 591-595). Without a \<open>creation\<close> there is no call; the first case only
  makes the function total.\<close>

definition persisted_copy :: "lp \<Rightarrow> string \<Rightarrow> nat \<Rightarrow> creation" where
  "persisted_copy s0 cur n =
     (case creation s0 of
        None \<Rightarrow> \<lparr>cid = [], cname = [], html = cur, originalImage = None, timestamp = n\<rparr>
      | Some c \<Rightarrow> c\<lparr>html := cur, timestamp := n\<rparr>)"

text \<open>The state at time \<open>n\<close> once the preview-sync timer of the last edit has fired.\<close>

definition after_preview :: "lp \<Rightarrow> string \<Rightarrow> nat \<Rightarrow> nat \<Rightarrow> lp" where
  "after_preview s0 cur T n =
     (if cur = debouncedCode s0 then pending s0 cur T n
      else (pending s0 cur T n)
             \<lparr>debouncedCode := cur, isSyncing := False, lastSaved := Some (T + 800),
              creation := Some (persisted_copy s0 cur (T + 800)),
              creationVer := creationVer s0 + 1, onUpdateVer := onUpdateVer s0 + 1,
              updates := updates s0 @ [persisted_copy s0 cur (T + 800)],
              previewTimer := None\<rparr>)"

text \<open>The guard of the push (line 609) for a timer armed in a burst that began in \<open>s0\<close>.\<close>

definition snapshot_worthy :: "lp \<Rightarrow> string \<Rightarrow> bool" where
  "snapshot_worthy s0 cur =
     (cur \<noteq> [] \<and> history s0 \<noteq> [] \<and> Some cur \<noteq> js_nth (history s0) (historyIndex s0))"

text \<open>The state once the snapshot-capture timer of the last edit has fired as well.\<close>

definition burst_end :: "lp \<Rightarrow> string \<Rightarrow> nat \<Rightarrow> lp" where
  "burst_end s0 cur T =
     (if snapshot_worthy s0 cur then
        (after_preview s0 cur T (T + 1000))
          \<lparr>history := push_snapshot (history s0) (historyIndex s0) cur,
           historyVer := historyVer s0 + 1,
           historyIndex := min (historyIndex s0 + 1) 99,
           snapshotTimer :=
             Some \<lparr>s_deadline = T + 2000, s_code = cur,
                    s_history = push_snapshot (history s0) (historyIndex s0) cur,
                    s_index = min (historyIndex s0 + 1) 99\<rparr>\<rparr>
      else (after_preview s0 cur T (T + 1000))\<lparr>snapshotTimer := None\<rparr>)"





text \<open>An artifact for the scenarios.\<close>

definition example_artifact :: creation where
  "example_artifact =
     \<lparr>cid = ''1'', cname = ''demo'', html = ''A'', originalImage = None, timestamp = 0\<rparr>"

text \<open>Undo followed at once by redo.\<close>

definition undo_redo :: "lp \<Rightarrow> error + lp" where
  "undo_redo s = (case handleUndo s of Inl e \<Rightarrow> Inl e | Inr s1 \<Rightarrow> handleRedo s1)"

text \<open>The state of the scenario of claim C2: the example artifact loaded, the buffer edited
  to \<open>"AB"\<close>, 1000 ms passed.\<close>

definition example_two :: lp where
  "example_two = advance 1000 (edit ''AB'' (set_creation (Some example_artifact) mount))"

text \<open>A typing session of \<open>n\<close> rounds: each round makes the buffer one character longer and
  waits 1000 ms.\<close>

fun typing :: "nat \<Rightarrow> event list" where
  "typing 0 = []"
| "typing (Suc n) = typing n @ [Edit (replicate (Suc (Suc n)) CHR ''A''), Wait 1000]"

text \<open>An artifact with another id and empty content.\<close>

definition empty_artifact :: creation where
  "empty_artifact =
     \<lparr>cid = ''2'', cname = ''blank'', html = [], originalImage = None, timestamp = 0\<rparr>"

text \<open>No snapshot is the empty string.\<close>

definition nonempty_entries :: "lp \<Rightarrow> bool" where
  "nonempty_entries s = ([] \<notin> set (history s))"




section \<open>Properties\<close>

subsection \<open>The state after a commit and after a render\<close>

lemmas effect_defs = effects_def load_effect_def preview_effect_def snapshot_effect_def
  load_resets_def loaded_html_def Let_def

lemma effects_history:
  "history (effects p r) = (if load_resets p r then [loaded_html r] else history r)"
  by (simp add: effect_defs split: option.split)

lemma effects_historyIndex:
  "historyIndex (effects p r) = (if load_resets p r then 0 else historyIndex r)"
  by (simp add: effect_defs split: option.split)

lemma effects_historyVer:
  "historyVer (effects p r) = (if load_resets p r then historyVer r + 1 else historyVer r)"
  by (simp add: effect_defs split: option.split)

lemma effects_editableCode:
  "editableCode (effects p r) = (if load_resets p r then loaded_html r else editableCode r)"
  by (simp add: effect_defs split: option.split)

lemma effects_debouncedCode:
  "debouncedCode (effects p r) = (if load_resets p r then loaded_html r else debouncedCode r)"
  by (simp add: effect_defs split: option.split)

lemma effects_lastSaved:
  "lastSaved (effects p r) = (if load_resets p r then None else lastSaved r)"
  by (simp add: effect_defs split: option.split)

lemma effects_isInternalChange:
  "isInternalChange (effects p r) = (\<not> snapshot_deps_changed p r \<and> isInternalChange r)"
  by (simp add: effect_defs split: option.split)

lemma effects_snapshotTimer:
  "snapshotTimer (effects p r) =
     (if snapshot_deps_changed p r then
        (if isInternalChange r then None
         else Some \<lparr>s_deadline = clock r + 1000, s_code = editableCode r,
                     s_history = history r, s_index = historyIndex r\<rparr>)
      else snapshotTimer r)"
  by (simp add: effect_defs split: option.split)

lemma effects_previewTimer:
  "previewTimer (effects p r) =
     (if preview_deps_changed p r then
        (if editableCode r = debouncedCode r then None
         else Some \<lparr>p_deadline = clock r + 800, p_code = editableCode r,
                     p_creation = creation r\<rparr>)
      else previewTimer r)"
  by (simp add: effect_defs split: option.split)

lemma effects_isSyncing:
  "isSyncing (effects p r) =
     (preview_deps_changed p r \<and> editableCode r \<noteq> debouncedCode r \<or> isSyncing r)"
  by (simp add: effect_defs split: option.split)

lemma effects_prevCreationId:
  "prevCreationId (effects p r) =
     (if load_deps_changed p r then
        (case creation r of None \<Rightarrow> None
         | Some c \<Rightarrow> if prevCreationId r \<noteq> Some (cid c)
                     then (if cid c = [] then None else Some (cid c))
                     else prevCreationId r)
      else prevCreationId r)"
  by (simp add: effect_defs split: option.split)

lemma effects_props:
  "creation (effects p r) = creation r"
  "creationVer (effects p r) = creationVer r"
  "onUpdateVer (effects p r) = onUpdateVer r"
  "clock (effects p r) = clock r"
  "updates (effects p r) = updates r"
  by (simp_all add: effect_defs split: option.split)

lemma rerender_deps:
  "load_deps_changed r (effects p r) = False"
  "snapshot_deps_changed r (effects p r) = load_resets p r"
  "preview_deps_changed r (effects p r) =
     (load_resets p r \<and> (loaded_html r \<noteq> editableCode r \<or> loaded_html r \<noteq> debouncedCode r))"
  by (auto simp: load_deps_changed_def snapshot_deps_changed_def preview_deps_changed_def
      effects_props effects_historyVer effects_editableCode effects_debouncedCode
      effects_historyIndex)

lemma load_resets_twice: "load_resets r (effects p r) = False"
  by (simp add: load_resets_def rerender_deps)

lemma rerender_history:
  "history (rerender p r) = (if load_resets p r then [loaded_html r] else history r)"
  by (simp add: rerender_def effects_history load_resets_twice)

lemma rerender_historyIndex:
  "historyIndex (rerender p r) = (if load_resets p r then 0 else historyIndex r)"
  by (simp add: rerender_def effects_historyIndex load_resets_twice)

lemma rerender_historyVer:
  "historyVer (rerender p r) = (if load_resets p r then historyVer r + 1 else historyVer r)"
  by (simp add: rerender_def effects_historyVer load_resets_twice)

lemma rerender_editableCode:
  "editableCode (rerender p r) = (if load_resets p r then loaded_html r else editableCode r)"
  by (simp add: rerender_def effects_editableCode load_resets_twice)

lemma rerender_debouncedCode:
  "debouncedCode (rerender p r) = (if load_resets p r then loaded_html r else debouncedCode r)"
  by (simp add: rerender_def effects_debouncedCode load_resets_twice)

lemma rerender_lastSaved:
  "lastSaved (rerender p r) = (if load_resets p r then None else lastSaved r)"
  by (simp add: rerender_def effects_lastSaved load_resets_twice)

lemma rerender_isInternalChange:
  "isInternalChange (rerender p r) =
     (\<not> load_resets p r \<and> \<not> snapshot_deps_changed p r \<and> isInternalChange r)"
  by (simp add: rerender_def effects_isInternalChange rerender_deps)

lemma rerender_snapshotTimer:
  "snapshotTimer (rerender p r) =
     (if load_resets p r then
        (if \<not> snapshot_deps_changed p r \<and> isInternalChange r then None
         else Some \<lparr>s_deadline = clock r + 1000, s_code = loaded_html r,
                     s_history = [loaded_html r], s_index = 0\<rparr>)
      else if snapshot_deps_changed p r then
        (if isInternalChange r then None
         else Some \<lparr>s_deadline = clock r + 1000, s_code = editableCode r,
                     s_history = history r, s_index = historyIndex r\<rparr>)
      else snapshotTimer r)"
  by (simp add: rerender_def effects_snapshotTimer [of r] rerender_deps
      effects_isInternalChange effects_props effects_editableCode effects_history
      effects_historyIndex)
    (simp add: effects_snapshotTimer)

lemma load_resets_preview: "load_resets p r \<Longrightarrow> preview_deps_changed p r"
  by (simp add: load_resets_def load_deps_changed_def preview_deps_changed_def)

lemma rerender_previewTimer:
  "previewTimer (rerender p r) =
     (if load_resets p r then None
      else if preview_deps_changed p r then
        (if editableCode r = debouncedCode r then None
         else Some \<lparr>p_deadline = clock r + 800, p_code = editableCode r,
                     p_creation = creation r\<rparr>)
      else previewTimer r)"
  by (simp add: rerender_def effects_previewTimer [of r] rerender_deps
      effects_props effects_editableCode effects_debouncedCode)
    (auto simp: effects_previewTimer load_resets_preview)

lemma rerender_isSyncing:
  "isSyncing (rerender p r) =
     (preview_deps_changed p r \<and> editableCode r \<noteq> debouncedCode r \<or> isSyncing r)"
  by (simp add: rerender_def effects_isSyncing [of r] rerender_deps
      effects_editableCode effects_debouncedCode)
    (simp add: effects_isSyncing)

lemma rerender_prevCreationId:
  "prevCreationId (rerender p r) =
     (if load_deps_changed p r then
        (case creation r of None \<Rightarrow> None
         | Some c \<Rightarrow> if prevCreationId r \<noteq> Some (cid c)
                     then (if cid c = [] then None else Some (cid c))
                     else prevCreationId r)
      else prevCreationId r)"
  by (simp add: rerender_def effects_prevCreationId [of r] rerender_deps)
    (simp add: effects_prevCreationId)

lemma rerender_props:
  "creation (rerender p r) = creation r"
  "creationVer (rerender p r) = creationVer r"
  "onUpdateVer (rerender p r) = onUpdateVer r"
  "clock (rerender p r) = clock r"
  "updates (rerender p r) = updates r"
  by (simp_all add: rerender_def effects_props)

text \<open>A third commit changes nothing.\<close>

lemma rerender_stable: "effects (effects p r) (rerender p r) = rerender p r"
proof -
  let ?s = "effects p r"
  have "\<not> load_deps_changed ?s (effects r ?s)"
    "\<not> preview_deps_changed ?s (effects r ?s)"
    "\<not> snapshot_deps_changed ?s (effects r ?s)"
    by (simp_all add: load_deps_changed_def preview_deps_changed_def snapshot_deps_changed_def
        effects_props effects_editableCode effects_debouncedCode effects_historyVer
        effects_historyIndex load_resets_twice)
  then show ?thesis
    by (simp add: rerender_def effects_def [of ?s])
qed

subsection \<open>The invariant of the reachable states\<close>

lemma load_resets_html: "load_resets p r \<Longrightarrow> loaded_html r \<noteq> []"
  by (auto simp: load_resets_def loaded_html_def split: option.splits)

lemma rerender_hist_inv: "hist_inv r \<Longrightarrow> hist_inv (rerender p r)"
  by (auto simp: hist_inv_def rerender_history rerender_historyIndex dest: load_resets_html)

lemma rerender_timer_inv:
  assumes "snapshot_deps_changed p r \<or>
           (case snapshotTimer r of None \<Rightarrow> True
            | Some t \<Rightarrow> s_code t = editableCode r \<and> s_history t = history r \<and>
                        s_index t = historyIndex r)"
    and "isInternalChange r \<longrightarrow> snapshot_deps_changed p r"
  shows "timer_inv (rerender p r)"
  using assms
  by (auto simp: timer_inv_def rerender_snapshotTimer rerender_isInternalChange
      rerender_editableCode rerender_history rerender_historyIndex split: option.splits)

lemma rerender_inv:
  assumes "hist_inv r"
    and "snapshot_deps_changed p r \<or>
           (case snapshotTimer r of None \<Rightarrow> True
            | Some t \<Rightarrow> s_code t = editableCode r \<and> s_history t = history r \<and>
                        s_index t = historyIndex r)"
    and "isInternalChange r \<longrightarrow> snapshot_deps_changed p r"
  shows "lp_inv (rerender p r)"
  using assms by (simp add: lp_inv_def rerender_hist_inv rerender_timer_inv)

lemma inv_mount: "lp_inv mount"
  by (simp add: lp_inv_def hist_inv_def timer_inv_def mount_def initial_def load_effect_def
      preview_effect_def snapshot_effect_def)

lemma inv_set_creation: "lp_inv s \<Longrightarrow> lp_inv (set_creation c s)"
  unfolding set_creation_def
  by (rule rerender_inv) (auto simp: lp_inv_def hist_inv_def timer_inv_def split: option.splits)

lemma inv_parent_render: "lp_inv s \<Longrightarrow> lp_inv (parent_render s)"
  unfolding parent_render_def
  by (rule rerender_inv) (auto simp: lp_inv_def hist_inv_def timer_inv_def split: option.splits)

lemma inv_edit: "lp_inv s \<Longrightarrow> lp_inv (edit txt s)"
  unfolding edit_def
  by (rule rerender_inv)
    (auto simp: lp_inv_def hist_inv_def timer_inv_def snapshot_deps_changed_def
      split: option.splits)

lemma inv_handleSave: "lp_inv s \<Longrightarrow> lp_inv (handleSave s)"
  unfolding handleSave_def
  by (cases "creation s"; simp; rule rerender_inv)
    (auto simp: lp_inv_def hist_inv_def timer_inv_def onUpdate_def split: option.splits)

lemma inv_handleUndo: "lp_inv s \<Longrightarrow> \<exists>s'. handleUndo s = Inr s' \<and> lp_inv s'"
proof (cases "historyIndex s > 0")
  case False
  then show "lp_inv s \<Longrightarrow> ?thesis" by (simp add: handleUndo_def)
next
  case True
  assume i: "lp_inv s"
  from i True have n: "js_nth (history s) (historyIndex s - 1) =
      Some (history s ! nat (historyIndex s - 1))"
    by (auto simp: lp_inv_def hist_inv_def js_nth_def)
  have "lp_inv (rerender s (s\<lparr>isInternalChange := True, historyIndex := historyIndex s - 1,
      editableCode := history s ! nat (historyIndex s - 1)\<rparr>))"
    using i True
    by (intro rerender_inv) (auto simp: lp_inv_def hist_inv_def snapshot_deps_changed_def)
  with True n show ?thesis by (simp add: handleUndo_def Let_def)
qed

lemma inv_handleRedo: "lp_inv s \<Longrightarrow> \<exists>s'. handleRedo s = Inr s' \<and> lp_inv s'"
proof (cases "historyIndex s < int (length (history s)) - 1")
  case False
  then show "lp_inv s \<Longrightarrow> ?thesis" by (simp add: handleRedo_def)
next
  case True
  assume i: "lp_inv s"
  from i True have n: "js_nth (history s) (historyIndex s + 1) =
      Some (history s ! nat (historyIndex s + 1))"
    by (auto simp: lp_inv_def hist_inv_def js_nth_def)
  have "lp_inv (rerender s (s\<lparr>isInternalChange := True, historyIndex := historyIndex s + 1,
      editableCode := history s ! nat (historyIndex s + 1)\<rparr>))"
    using i True
    by (intro rerender_inv) (auto simp: lp_inv_def hist_inv_def snapshot_deps_changed_def)
  with True n show ?thesis by (simp add: handleRedo_def Let_def)
qed

lemma inv_fire_preview: "lp_inv s \<Longrightarrow> lp_inv (fire_preview s)"
proof (cases "previewTimer s")
  case None
  then show "lp_inv s \<Longrightarrow> ?thesis" by (simp add: fire_preview_def)
next
  case (Some t)
  assume i: "lp_inv s"
  show ?thesis
    unfolding fire_preview_def Some option.case Let_def
    using i
    by (intro rerender_inv)
      (auto simp: lp_inv_def hist_inv_def timer_inv_def onUpdate_def split: option.splits)
qed

lemma push_snapshot_props:
  assumes "0 \<le> i" "i < int (length h)" "length h \<le> 100" "[] \<notin> set h" "c \<noteq> []"
  shows "length (push_snapshot h i c) = nat (min (i + 1) 99) + 1"
    and "[] \<notin> set (push_snapshot h i c)"
proof -
  let ?n = "js_slice0 h (i + 1) @ [c]"
  from assms have l: "length ?n = nat i + 2" by (simp add: js_slice0_def)
  have ne: "[] \<notin> set ?n"
    using assms by (auto simp: js_slice0_def dest: in_set_takeD)
  show "length (push_snapshot h i c) = nat (min (i + 1) 99) + 1"
    using l assms by (auto simp: push_snapshot_def Let_def)
  have "set (tl ?n) \<subseteq> set ?n" by (cases ?n) auto
  with ne show "[] \<notin> set (push_snapshot h i c)"
    by (auto simp: push_snapshot_def Let_def)
qed

lemma inv_fire_snapshot: "lp_inv s \<Longrightarrow> lp_inv (fire_snapshot s)"
proof (cases "snapshotTimer s")
  case None
  then show "lp_inv s \<Longrightarrow> ?thesis" by (simp add: fire_snapshot_def)
next
  case (Some t)
  assume i: "lp_inv s"
  from i Some have cl: "s_code t = editableCode s" "s_history t = history s"
    "s_index t = historyIndex s"
    by (simp_all add: lp_inv_def timer_inv_def)
  show ?thesis
  proof (cases "will_push t")
    case False
    have "lp_inv (rerender s (s\<lparr>snapshotTimer := None\<rparr>))"
      using i by (intro rerender_inv) (auto simp: lp_inv_def hist_inv_def timer_inv_def)
    with Some False show ?thesis by (simp add: fire_snapshot_def)
  next
    case True
    with cl have ne: "editableCode s \<noteq> []" "history s \<noteq> []"
      by (auto simp: will_push_def)
    with i have r: "0 \<le> historyIndex s" "historyIndex s < int (length (history s))"
      "length (history s) \<le> 100" "[] \<notin> set (history s)"
      by (auto simp: lp_inv_def hist_inv_def)
    note pp = push_snapshot_props [OF r ne(1)]
    have "lp_inv (rerender s (s\<lparr>snapshotTimer := None,
        history := push_snapshot (history s) (historyIndex s) (editableCode s),
        historyVer := historyVer s + 1,
        historyIndex := min (historyIndex s + 1) 99\<rparr>))"
      using i r pp
      by (intro rerender_inv) (auto simp: lp_inv_def hist_inv_def snapshot_deps_changed_def)
    with Some True cl show ?thesis by (simp add: fire_snapshot_def)
  qed
qed

lemma inv_clock: "lp_inv (s\<lparr>clock := n\<rparr>) = lp_inv s"
  by (simp add: lp_inv_def hist_inv_def timer_inv_def split: option.splits)

lemma inv_tick: "lp_inv s \<Longrightarrow> lp_inv (tick s)"
  by (auto simp: tick_def Let_def fire_preview_if_due_def fire_snapshot_if_due_def
      inv_clock inv_fire_preview inv_fire_snapshot split: option.splits)

lemma inv_advance: "lp_inv s \<Longrightarrow> lp_inv (advance n s)"
  by (induction n arbitrary: s) (simp_all add: inv_tick)

lemma inv_step: "lp_inv s \<Longrightarrow> \<exists>s'. step e s = Inr s' \<and> lp_inv s'"
  by (cases e)
    (simp_all add: inv_set_creation inv_parent_render inv_edit inv_handleUndo inv_handleRedo
      inv_handleSave inv_advance)

lemma inv_run: "lp_inv s \<Longrightarrow> \<exists>s'. run s es = Inr s' \<and> lp_inv s'"
proof (induction es arbitrary: s)
  case Nil
  then show ?case by simp
next
  case (Cons e es)
  from inv_step [OF Cons.prems, of e] obtain s1 where s1: "step e s = Inr s1" "lp_inv s1"
    by blast
  from Cons.IH [OF s1(2)] s1(1) show ?case by simp
qed

subsection \<open>Idle time, and edits in a burst\<close>

lemma tick_idle:
  assumes "case previewTimer s of None \<Rightarrow> True | Some t \<Rightarrow> clock s + 1 < p_deadline t"
    and "case snapshotTimer s of None \<Rightarrow> True | Some t \<Rightarrow> clock s + 1 < s_deadline t"
  shows "tick s = s\<lparr>clock := clock s + 1\<rparr>"
  using assms
  by (auto simp: tick_def Let_def fire_preview_if_due_def fire_snapshot_if_due_def
      split: option.splits)

lemma advance_idle:
  assumes "case previewTimer s of None \<Rightarrow> True | Some t \<Rightarrow> clock s + n < p_deadline t"
    and "case snapshotTimer s of None \<Rightarrow> True | Some t \<Rightarrow> clock s + n < s_deadline t"
  shows "advance n s = s\<lparr>clock := clock s + n\<rparr>"
  using assms
proof (induction n arbitrary: s)
  case 0
  then show ?case by simp
next
  case (Suc n)
  have t: "tick s = s\<lparr>clock := clock s + 1\<rparr>"
    using Suc.prems by (intro tick_idle) (auto split: option.splits)
  have "advance n (s\<lparr>clock := clock s + 1\<rparr>) =
      (s\<lparr>clock := clock s + 1\<rparr>)\<lparr>clock := clock (s\<lparr>clock := clock s + 1\<rparr>) + n\<rparr>"
    using Suc.prems by (intro Suc.IH) (auto split: option.splits)
  with t show ?case by simp
qed

lemma advance_add: "advance (m + n) s = advance n (advance m s)"
  by (induction m arbitrary: s) simp_all

lemma lp_eqI:
  fixes s s' :: lp
  assumes "editableCode s = editableCode s'" "debouncedCode s = debouncedCode s'"
    "isSyncing s = isSyncing s'" "lastSaved s = lastSaved s'" "history s = history s'"
    "historyIndex s = historyIndex s'" "isInternalChange s = isInternalChange s'"
    "prevCreationId s = prevCreationId s'" "creation s = creation s'"
    "creationVer s = creationVer s'" "onUpdateVer s = onUpdateVer s'"
    "historyVer s = historyVer s'" "previewTimer s = previewTimer s'"
    "snapshotTimer s = snapshotTimer s'" "clock s = clock s'" "updates s = updates s'"
  shows "s = s'"
  using assms by (intro lp.equality) simp_all

lemmas rerender_fields = rerender_history rerender_historyIndex rerender_historyVer
  rerender_editableCode rerender_debouncedCode rerender_lastSaved rerender_isInternalChange
  rerender_snapshotTimer rerender_previewTimer rerender_isSyncing rerender_prevCreationId
  rerender_props

lemmas deps_defs = load_resets_def load_deps_changed_def preview_deps_changed_def
  snapshot_deps_changed_def

lemma edit_settled:
  assumes "settled c s0" "txt \<noteq> editableCode s0"
  shows "edit txt s0 = pending s0 txt (clock s0) (clock s0)"
  using assms
  by (intro lp_eqI) (simp_all add: edit_def rerender_fields deps_defs settled_def pending_def)

lemma advance_pending:
  assumes "n + g < T + 800"
  shows "advance g (pending s0 cur T n) = pending s0 cur T (n + g)"
proof -
  have "advance g (pending s0 cur T n) =
      (pending s0 cur T n)\<lparr>clock := clock (pending s0 cur T n) + g\<rparr>"
    using assms by (intro advance_idle) (simp_all add: pending_def)
  then show ?thesis by (simp add: pending_def)
qed


subsection \<open>The two timers of the last edit\<close>

lemma fire_preview_pending:
  assumes "settled c s0" "cur \<noteq> debouncedCode s0"
  shows "fire_preview (pending s0 cur T (T + 800)) = after_preview s0 cur T (T + 800)"
  using assms
  by (intro lp_eqI)
    (simp_all add: fire_preview_def Let_def onUpdate_def rerender_fields deps_defs settled_def
      pending_def after_preview_def persisted_copy_def)

lemma tick_pending:
  assumes "settled c s0"
  shows "tick (pending s0 cur T (T + 799)) = after_preview s0 cur T (T + 800)"
proof (cases "cur = debouncedCode s0")
  case True
  have "tick (pending s0 cur T (T + 799)) =
      (pending s0 cur T (T + 799))\<lparr>clock := clock (pending s0 cur T (T + 799)) + 1\<rparr>"
    using True by (intro tick_idle) (simp_all add: pending_def)
  with True show ?thesis by (simp add: after_preview_def pending_def)
next
  case False
  let ?s1 = "pending s0 cur T (T + 800)"
  have c: "(pending s0 cur T (T + 799))\<lparr>clock := clock (pending s0 cur T (T + 799)) + 1\<rparr> = ?s1"
    by (intro lp_eqI) (simp_all add: pending_def)
  have f: "\<not> snapshot_first ?s1" "fire_preview_if_due ?s1 = fire_preview ?s1"
    using False by (simp_all add: snapshot_first_def fire_preview_if_due_def pending_def)
  have "tick (pending s0 cur T (T + 799)) = fire_snapshot_if_due (fire_preview ?s1)"
    unfolding tick_def Let_def c using f by simp
  also have "\<dots> = fire_snapshot_if_due (after_preview s0 cur T (T + 800))"
    using assms False by (simp add: fire_preview_pending)
  also have "\<dots> = after_preview s0 cur T (T + 800)"
    using False by (simp add: fire_snapshot_if_due_def after_preview_def pending_def)
  finally show ?thesis .
qed

lemma advance_after_preview:
  assumes "n + g < T + 1000"
  shows "advance g (after_preview s0 cur T n) = after_preview s0 cur T (n + g)"
proof -
  have "advance g (after_preview s0 cur T n) =
      (after_preview s0 cur T n)\<lparr>clock := clock (after_preview s0 cur T n) + g\<rparr>"
    using assms by (intro advance_idle) (simp_all add: after_preview_def pending_def)
  also have "\<dots> = after_preview s0 cur T (n + g)"
    by (intro lp_eqI) (simp_all add: after_preview_def pending_def)
  finally show ?thesis .
qed

lemma fire_snapshot_after_preview:
  assumes "settled c s0"
  shows "fire_snapshot (after_preview s0 cur T (T + 1000)) = burst_end s0 cur T"
  using assms
  by (intro lp_eqI)
    (simp_all add: fire_snapshot_def Let_def will_push_def snapshot_worthy_def rerender_fields
      deps_defs settled_def pending_def after_preview_def burst_end_def)

lemma tick_after_preview:
  assumes "settled c s0"
  shows "tick (after_preview s0 cur T (T + 999)) = burst_end s0 cur T"
proof -
  let ?s1 = "after_preview s0 cur T (T + 1000)"
  have c: "(after_preview s0 cur T (T + 999))
      \<lparr>clock := clock (after_preview s0 cur T (T + 999)) + 1\<rparr> = ?s1"
    by (intro lp_eqI) (simp_all add: after_preview_def pending_def)
  have f: "\<not> snapshot_first ?s1" "fire_preview_if_due ?s1 = ?s1"
    "fire_snapshot_if_due ?s1 = fire_snapshot ?s1"
    by (simp_all add: snapshot_first_def fire_preview_if_due_def fire_snapshot_if_due_def
        after_preview_def pending_def)
  have "tick (after_preview s0 cur T (T + 999)) = fire_snapshot ?s1"
    unfolding tick_def Let_def c using f by simp
  then show ?thesis using assms by (simp add: fire_snapshot_after_preview)
qed

lemma advance_800_pending:
  assumes "settled c s0"
  shows "advance 800 (pending s0 cur T T) = after_preview s0 cur T (T + 800)"
proof -
  have "advance 800 (pending s0 cur T T) = advance 1 (advance 799 (pending s0 cur T T))"
    using advance_add [of 799 1] by simp
  also have "advance 799 (pending s0 cur T T) = pending s0 cur T (T + 799)"
    by (rule advance_pending) simp
  also have "advance 1 (pending s0 cur T (T + 799)) = tick (pending s0 cur T (T + 799))"
    by simp
  finally show ?thesis using assms by (simp only: tick_pending)
qed

lemma advance_200_after_preview:
  assumes "settled c s0"
  shows "advance 200 (after_preview s0 cur T (T + 800)) = burst_end s0 cur T"
proof -
  have e: "T + 800 + 199 = T + 999" by simp
  have "advance 200 (after_preview s0 cur T (T + 800)) =
      advance 1 (advance 199 (after_preview s0 cur T (T + 800)))"
    using advance_add [of 199 1] by simp
  also have "advance 199 (after_preview s0 cur T (T + 800)) =
      after_preview s0 cur T (T + 800 + 199)"
    by (rule advance_after_preview) simp
  also have "advance 1 (after_preview s0 cur T (T + 800 + 199)) =
      tick (after_preview s0 cur T (T + 999))"
    unfolding e by simp
  finally show ?thesis using assms by (simp only: tick_after_preview)
qed

lemma advance_1000_pending:
  assumes "settled c s0"
  shows "advance 1000 (pending s0 cur T T) = burst_end s0 cur T"
proof -
  have "advance 1000 (pending s0 cur T T) = advance 200 (advance 800 (pending s0 cur T T))"
    using advance_add [of 800 200] by simp
  then show ?thesis
    using assms by (simp only: advance_800_pending advance_200_after_preview)
qed

subsection \<open>Loading, and bursts\<close>

lemma mount_eq:
  "mount = initial\<lparr>snapshotTimer := Some \<lparr>s_deadline = 1000, s_code = [], s_history = [],
                                            s_index = -1\<rparr>\<rparr>"
  by (simp add: mount_def initial_def load_effect_def preview_effect_def snapshot_effect_def)

lemma settled_load:
  assumes "cid c \<noteq> []" "html c \<noteq> []"
  shows "settled c (set_creation (Some c) mount)"
  using assms
  by (simp add: settled_def set_creation_def rerender_fields deps_defs loaded_html_def
      mount_eq initial_def)

lemma load_fields:
  assumes "html c \<noteq> []"
  shows "history (set_creation (Some c) mount) = [html c]"
    "historyIndex (set_creation (Some c) mount) = 0"
    "editableCode (set_creation (Some c) mount) = html c"
    "debouncedCode (set_creation (Some c) mount) = html c"
    "updates (set_creation (Some c) mount) = []"
    "historyVer (set_creation (Some c) mount) = 1"
    "clock (set_creation (Some c) mount) = 0"
    "isSyncing (set_creation (Some c) mount) = False"
  using assms
  by (simp_all add: set_creation_def rerender_fields deps_defs loaded_html_def
      mount_eq initial_def)


lemma settled_burst_end:
  assumes "settled c s0" "cur \<noteq> debouncedCode s0"
  shows "settled (persisted_copy s0 cur (T + 800)) (burst_end s0 cur T)"
  using assms
  by (simp add: settled_def burst_end_def after_preview_def pending_def persisted_copy_def)



lemma burst_fields:
  "debouncedCode (pending s0 cur T n) = debouncedCode s0"
  "updates (pending s0 cur T n) = updates s0"
  "history (pending s0 cur T n) = history s0"
  "historyIndex (pending s0 cur T n) = historyIndex s0"
  "historyVer (pending s0 cur T n) = historyVer s0"
  "editableCode (pending s0 cur T n) = cur"
  "clock (pending s0 cur T n) = n"
  by (simp_all add: pending_def)

lemma burst_end_fields:
  assumes "settled c s0"
  shows "editableCode (burst_end s0 cur T) = cur"
    "debouncedCode (burst_end s0 cur T) = cur"
    "updates (burst_end s0 cur T) =
       (if cur = html c then updates s0
        else updates s0 @ [c\<lparr>html := cur, timestamp := T + 800\<rparr>])"
    "history (burst_end s0 cur T) =
       (if snapshot_worthy s0 cur then push_snapshot (history s0) (historyIndex s0) cur
        else history s0)"
    "historyIndex (burst_end s0 cur T) =
       (if snapshot_worthy s0 cur then min (historyIndex s0 + 1) 99 else historyIndex s0)"
    "historyVer (burst_end s0 cur T) =
       (if snapshot_worthy s0 cur then historyVer s0 + 1 else historyVer s0)"
    "clock (burst_end s0 cur T) = T + 1000"
  using assms
  by (simp_all add: burst_end_def after_preview_def pending_def persisted_copy_def
      settled_def)

subsection \<open>Undo and redo; the scenario\<close>

lemma handleUndo_fields:
  assumes "historyIndex s > 0" "js_nth (history s) (historyIndex s - 1) = Some v"
  shows "\<exists>s'. handleUndo s = Inr s' \<and> editableCode s' = v \<and>
     historyIndex s' = historyIndex s - 1 \<and> history s' = history s \<and>
     historyVer s' = historyVer s \<and> snapshotTimer s' = None \<and> \<not> isInternalChange s'"
  using assms
  by (simp add: handleUndo_def Let_def rerender_fields deps_defs)

lemma handleRedo_fields:
  assumes "historyIndex s < int (length (history s)) - 1"
    "js_nth (history s) (historyIndex s + 1) = Some v"
  shows "\<exists>s'. handleRedo s = Inr s' \<and> editableCode s' = v \<and>
     historyIndex s' = historyIndex s + 1 \<and> history s' = history s \<and>
     historyVer s' = historyVer s \<and> snapshotTimer s' = None \<and> \<not> isInternalChange s'"
  using assms
  by (simp add: handleRedo_def Let_def rerender_fields deps_defs)

text \<open>
  Claim C2. An artifact with content \<open>"A"\<close> (and a non-empty id, as every artifact of
  \<open>App\<close> has) is loaded into the freshly mounted component; the buffer is edited to
  \<open>"AB"\<close> and 1000 ms pass. Then the history is \<open>["A", "AB"]\<close> with index 1; undo gives
  buffer \<open>"A"\<close> and index 0; redo after it gives buffer \<open>"AB"\<close> and index 1.
\<close>

theorem scenario_edit_undo_redo:
  assumes "cid c \<noteq> []" and "html c = ''A''"
  shows "let s1 = advance 1000 (edit ''AB'' (set_creation (Some c) mount)) in
     history s1 = [''A'', ''AB''] \<and> historyIndex s1 = 1 \<and>
     (\<exists>s2 s3. handleUndo s1 = Inr s2 \<and> editableCode s2 = ''A'' \<and> historyIndex s2 = 0 \<and>
        handleRedo s2 = Inr s3 \<and> editableCode s3 = ''AB'' \<and> historyIndex s3 = 1)"
proof -
  let ?s0 = "set_creation (Some c) mount"
  let ?s1 = "advance 1000 (edit ''AB'' ?s0)"
  from assms have st: "settled c ?s0" by (simp add: settled_load)
  from assms have lf: "history ?s0 = [''A'']" "historyIndex ?s0 = 0" "editableCode ?s0 = ''A''"
    "clock ?s0 = 0"
    using load_fields [of c] by simp_all
  have "edit ''AB'' ?s0 = pending ?s0 ''AB'' 0 0"
    using edit_settled [OF st, of "''AB''"] lf by simp
  then have s1: "?s1 = burst_end ?s0 ''AB'' 0"
    using advance_1000_pending [OF st] by simp
  have w: "snapshot_worthy ?s0 ''AB''"
    by (simp add: snapshot_worthy_def lf js_nth_def)
  have h1: "history ?s1 = [''A'', ''AB'']" "historyIndex ?s1 = 1"
    using burst_end_fields(4,5) [OF st, of "''AB''" 0] w
    by (simp_all add: s1 lf push_snapshot_def js_slice0_def)
  have "js_nth (history ?s1) (historyIndex ?s1 - 1) = Some ''A''"
    by (simp add: h1 js_nth_def)
  from handleUndo_fields [OF _ this] h1 obtain s2 where
    s2: "handleUndo ?s1 = Inr s2" "editableCode s2 = ''A''" "historyIndex s2 = 0"
      "history s2 = [''A'', ''AB'']"
    by auto
  have "js_nth (history s2) (historyIndex s2 + 1) = Some ''AB''"
    by (simp add: s2 js_nth_def)
  from handleRedo_fields [OF _ this] s2 obtain s3 where
    s3: "handleRedo s2 = Inr s3" "editableCode s3 = ''AB''" "historyIndex s3 = 1"
    by auto
  from h1 s2 s3 show ?thesis by (simp add: Let_def)
qed

text \<open>The scenario with the example artifact.\<close>

theorem scenario_edit_undo_redo_witness:
  "cid example_artifact \<noteq> [] \<and> html example_artifact = ''A'' \<and>
   history (advance 1000 (edit ''AB'' (set_creation (Some example_artifact) mount))) =
     [''A'', ''AB'']"
proof -
  have h: "cid example_artifact \<noteq> []" "html example_artifact = ''A''"
    by (simp_all add: example_artifact_def)
  from scenario_edit_undo_redo [OF h] h show ?thesis by (simp add: Let_def)
qed

subsection \<open>The history stack\<close>

lemma fire_snapshot_fields:
  assumes "snapshotTimer s = Some t"
  shows "history (fire_snapshot s) =
       (if will_push t then push_snapshot (history s) (s_index t) (s_code t) else history s)"
    "historyIndex (fire_snapshot s) =
       (if will_push t then min (historyIndex s + 1) 99 else historyIndex s)"
    "historyVer (fire_snapshot s) = (if will_push t then historyVer s + 1 else historyVer s)"
    "previewTimer (fire_snapshot s) = previewTimer s"
    "isSyncing (fire_snapshot s) = isSyncing s"
  using assms
  by (simp_all add: fire_snapshot_def Let_def rerender_fields deps_defs)

lemma push_at_capacity:
  assumes "length h = 100"
  shows "push_snapshot h 99 c = tl h @ [c]"
  using assms by (cases h) (simp_all add: push_snapshot_def js_slice0_def Let_def)

lemma push_below_capacity:
  assumes "0 \<le> i" "i < 99" "i < int (length h)"
  shows "push_snapshot h i c = take (nat (i + 1)) h @ [c]"
  using assms by (simp add: push_snapshot_def js_slice0_def Let_def)

lemma handleUndo_changes: "lp_inv s \<Longrightarrow> (handleUndo s \<noteq> Inr s) = (0 < historyIndex s)"
proof (cases "0 < historyIndex s")
  case False
  then show ?thesis by (simp add: handleUndo_def)
next
  case True
  assume "lp_inv s"
  with True have "js_nth (history s) (historyIndex s - 1) =
      Some (history s ! nat (historyIndex s - 1))"
    by (auto simp: lp_inv_def hist_inv_def js_nth_def)
  from handleUndo_fields [OF True this] obtain s1 where
    s1: "handleUndo s = Inr s1" "historyIndex s1 = historyIndex s - 1"
    by blast
  then have "s1 \<noteq> s" by auto
  with s1(1) True show ?thesis by simp
qed

lemma handleRedo_changes:
  "lp_inv s \<Longrightarrow> (handleRedo s \<noteq> Inr s) = (historyIndex s < int (length (history s)) - 1)"
proof (cases "historyIndex s < int (length (history s)) - 1")
  case False
  then show ?thesis by (simp add: handleRedo_def)
next
  case True
  assume "lp_inv s"
  with True have "js_nth (history s) (historyIndex s + 1) =
      Some (history s ! nat (historyIndex s + 1))"
    by (auto simp: lp_inv_def hist_inv_def js_nth_def)
  from handleRedo_fields [OF True this] obtain s1 where
    s1: "handleRedo s = Inr s1" "historyIndex s1 = historyIndex s + 1"
    by blast
  then have "s1 \<noteq> s" by auto
  with s1(1) True show ?thesis by simp
qed

text \<open>
  Claim C3. After every sequence of loads, parent renders, edits, undos, redos, saves and
  waits from the mounted component, no read of the history is out of range and: the history
  has at most 100 entries; if it is non-empty, the index is within it; the undo button is
  enabled iff the index is positive, which is when \<open>handleUndo\<close> changes the state; the redo
  button is enabled iff the index is below the last position, which is when \<open>handleRedo\<close>
  changes the state. In every state satisfying the invariant \<open>lp_inv\<close> of the reachable
  states, a snapshot push keeps the length within 100 and puts the buffer last; at index 99
  (a full history) it drops the oldest entry and the index, advanced and shifted down by
  one, stays 99; below, it truncates after the index and advances the index.
\<close>

theorem history_stack_invariants:
  "(\<exists>s. run mount es = Inr s \<and> lp_inv s \<and> length (history s) \<le> 100 \<and>
      (history s \<noteq> [] \<longrightarrow> 0 \<le> historyIndex s \<and> historyIndex s < int (length (history s))) \<and>
      (undo_available s \<longleftrightarrow> 0 < historyIndex s) \<and>
      (redo_available s \<longleftrightarrow> historyIndex s < int (length (history s)) - 1) \<and>
      (undo_available s \<longleftrightarrow> handleUndo s \<noteq> Inr s) \<and>
      (redo_available s \<longleftrightarrow> handleRedo s \<noteq> Inr s)) \<and>
   (lp_inv s' \<and> snapshotTimer s' = Some t \<and> will_push t \<longrightarrow>
      length (history (fire_snapshot s')) \<le> 100 \<and>
      last (history (fire_snapshot s')) = editableCode s' \<and>
      (if historyIndex s' = 99
       then history (fire_snapshot s') = tl (history s') @ [editableCode s'] \<and>
            historyIndex (fire_snapshot s') = historyIndex s' + 1 - 1
       else history (fire_snapshot s') =
              take (nat (historyIndex s' + 1)) (history s') @ [editableCode s'] \<and>
            historyIndex (fire_snapshot s') = historyIndex s' + 1))"
proof (intro conjI impI)
  from inv_run [OF inv_mount, of es] obtain s where s: "run mount es = Inr s" "lp_inv s"
    by blast
  from s(2) have "length (history s) \<le> 100"
    "history s \<noteq> [] \<longrightarrow> 0 \<le> historyIndex s \<and> historyIndex s < int (length (history s))"
    by (auto simp: lp_inv_def hist_inv_def)
  moreover have "undo_available s \<longleftrightarrow> 0 < historyIndex s"
    "redo_available s \<longleftrightarrow> historyIndex s < int (length (history s)) - 1"
    by (auto simp: undo_available_def redo_available_def)
  moreover have "undo_available s \<longleftrightarrow> handleUndo s \<noteq> Inr s"
    "redo_available s \<longleftrightarrow> handleRedo s \<noteq> Inr s"
    using s(2)
    by (auto simp: handleUndo_changes handleRedo_changes undo_available_def
        redo_available_def)
  ultimately show "\<exists>s. run mount es = Inr s \<and> lp_inv s \<and> length (history s) \<le> 100 \<and>
      (history s \<noteq> [] \<longrightarrow> 0 \<le> historyIndex s \<and> historyIndex s < int (length (history s))) \<and>
      (undo_available s \<longleftrightarrow> 0 < historyIndex s) \<and>
      (redo_available s \<longleftrightarrow> historyIndex s < int (length (history s)) - 1) \<and>
      (undo_available s \<longleftrightarrow> handleUndo s \<noteq> Inr s) \<and>
      (redo_available s \<longleftrightarrow> handleRedo s \<noteq> Inr s)"
    using s by blast
next
  assume a: "lp_inv s' \<and> snapshotTimer s' = Some t \<and> will_push t"
  then have cl: "s_code t = editableCode s'" "s_history t = history s'"
    "s_index t = historyIndex s'"
    by (auto simp: lp_inv_def timer_inv_def)
  from a cl have ne: "history s' \<noteq> []" by (auto simp: will_push_def)
  with a have r: "0 \<le> historyIndex s'" "historyIndex s' < int (length (history s'))"
    "length (history s') \<le> 100"
    by (auto simp: lp_inv_def hist_inv_def)
  have h: "history (fire_snapshot s') =
      push_snapshot (history s') (historyIndex s') (editableCode s')"
    "historyIndex (fire_snapshot s') = min (historyIndex s' + 1) 99"
    using a fire_snapshot_fields(1,2) [of s' t] cl by simp_all
  show "length (history (fire_snapshot s')) \<le> 100"
    using inv_fire_snapshot a by (simp add: lp_inv_def hist_inv_def)
  show "last (history (fire_snapshot s')) = editableCode s'"
    unfolding h using r
    by (cases "historyIndex s' = 99")
      (simp_all add: push_at_capacity push_below_capacity)
  show "if historyIndex s' = 99
       then history (fire_snapshot s') = tl (history s') @ [editableCode s'] \<and>
            historyIndex (fire_snapshot s') = historyIndex s' + 1 - 1
       else history (fire_snapshot s') =
              take (nat (historyIndex s' + 1)) (history s') @ [editableCode s'] \<and>
            historyIndex (fire_snapshot s') = historyIndex s' + 1"
    unfolding h using r
    by (cases "historyIndex s' = 99")
      (simp_all add: push_at_capacity push_below_capacity)
qed

subsection \<open>Example runs\<close>

lemma run_load_edit_wait:
  assumes "cid c \<noteq> []" "html c \<noteq> []" "txt \<noteq> html c"
  shows "run mount [Load (Some c), Edit txt, Wait 1000] =
     Inr (burst_end (set_creation (Some c) mount) txt 0)"
proof -
  let ?s0 = "set_creation (Some c) mount"
  from assms have st: "settled c ?s0" by (simp add: settled_load)
  have "edit txt ?s0 = pending ?s0 txt 0 0"
    using edit_settled [OF st, of "txt"] load_fields [of c] assms by simp
  then show ?thesis using advance_1000_pending [OF st] by simp
qed

lemma example_loaded:
  "settled example_artifact (set_creation (Some example_artifact) mount)"
  "history (set_creation (Some example_artifact) mount) = [''A'']"
  "historyIndex (set_creation (Some example_artifact) mount) = 0"
  "editableCode (set_creation (Some example_artifact) mount) = ''A''"
  "debouncedCode (set_creation (Some example_artifact) mount) = ''A''"
  "updates (set_creation (Some example_artifact) mount) = []"
  "historyVer (set_creation (Some example_artifact) mount) = 1"
  "clock (set_creation (Some example_artifact) mount) = 0"
  "isSyncing (set_creation (Some example_artifact) mount) = False"
  using settled_load [of example_artifact] load_fields [of example_artifact]
  by (simp_all add: example_artifact_def)

lemma example_worthy:
  "snapshot_worthy (set_creation (Some example_artifact) mount) new =
     (new \<noteq> [] \<and> new \<noteq> ''A'')"
  by (auto simp: snapshot_worthy_def example_loaded js_nth_def)


lemma example_edit:
  assumes "new \<noteq> ''A''"
  shows "edit new (set_creation (Some example_artifact) mount) =
      pending (set_creation (Some example_artifact) mount) new 0 0"
    "advance 1000 (edit new (set_creation (Some example_artifact) mount)) =
      burst_end (set_creation (Some example_artifact) mount) new 0"
proof -
  show "edit new (set_creation (Some example_artifact) mount) =
      pending (set_creation (Some example_artifact) mount) new 0 0"
    using edit_settled [OF example_loaded(1), of new] assms by (simp add: example_loaded)
  then show "advance 1000 (edit new (set_creation (Some example_artifact) mount)) =
      burst_end (set_creation (Some example_artifact) mount) new 0"
    using advance_1000_pending [OF example_loaded(1)] by simp
qed

lemma example_two_eq:
  "example_two = burst_end (set_creation (Some example_artifact) mount) ''AB'' 0"
  using example_edit(2) [of "''AB''"] by (simp add: example_two_def)

lemma example_two_fields:
  "settled (persisted_copy (set_creation (Some example_artifact) mount) ''AB'' (0 + 800))
     example_two"
  "history example_two = [''A'', ''AB'']"
  "historyIndex example_two = 1"
  "editableCode example_two = ''AB''"
  "clock example_two = 1000"
  "\<not> isInternalChange example_two"
proof -
  show st: "settled (persisted_copy (set_creation (Some example_artifact) mount) ''AB''
      (0 + 800)) example_two"
    unfolding example_two_eq
    by (rule settled_burst_end [OF example_loaded(1)]) (simp add: example_loaded)
  show "history example_two = [''A'', ''AB'']" "historyIndex example_two = 1"
    "editableCode example_two = ''AB''" "clock example_two = 1000"
    unfolding example_two_eq
    using burst_end_fields(1,4,5,7) [OF example_loaded(1), of "''AB''" 0]
    by (simp_all add: example_worthy example_loaded push_snapshot_def js_slice0_def)
  from st show "\<not> isInternalChange example_two" by (simp add: settled_def)
qed

lemma run_append:
  "run s (es @ es') = (case run s es of Inl e \<Rightarrow> Inl e | Inr s' \<Rightarrow> run s' es')"
  by (induction es arbitrary: s) (auto split: sum.splits)

lemma typing_round:
  assumes "settled c s" "new \<noteq> editableCode s"
  shows "run s [Edit new, Wait 1000] = Inr (burst_end s new (clock s))"
    "settled (persisted_copy s new (clock s + 800)) (burst_end s new (clock s))"
proof -
  have "edit new s = pending s new (clock s) (clock s)"
    using assms by (rule edit_settled)
  then show "run s [Edit new, Wait 1000] = Inr (burst_end s new (clock s))"
    using advance_1000_pending [OF assms(1)] by simp
  from assms have "new \<noteq> debouncedCode s" by (simp add: settled_def)
  with assms(1) show "settled (persisted_copy s new (clock s + 800))
      (burst_end s new (clock s))"
    by (rule settled_burst_end)
qed

lemma typing_state:
  assumes "n \<le> 99"
  shows "\<exists>s c. run mount (Load (Some example_artifact) # typing n) = Inr s \<and> settled c s \<and>
     history s = map (\<lambda>k. replicate (Suc k) CHR ''A'') [0..<Suc n] \<and>
     historyIndex s = int n \<and> editableCode s = replicate (Suc n) CHR ''A''"
  using assms
proof (induction n)
  case 0
  have "run mount (Load (Some example_artifact) # typing 0) =
      Inr (set_creation (Some example_artifact) mount)"
    by simp
  with example_loaded show ?case by auto
next
  case (Suc n)
  let ?new = "replicate (Suc (Suc n)) CHR ''A''"
  from Suc obtain s c where
    s: "run mount (Load (Some example_artifact) # typing n) = Inr s" "settled c s"
      "history s = map (\<lambda>k. replicate (Suc k) CHR ''A'') [0..<Suc n]"
      "historyIndex s = int n" "editableCode s = replicate (Suc n) CHR ''A''"
    by auto
  have ne: "?new \<noteq> editableCode s"
    unfolding s(5) by (metis length_replicate n_not_Suc_n)
  note r = typing_round [OF s(2) ne]
  have "run mount (Load (Some example_artifact) # typing (Suc n)) =
      run mount ((Load (Some example_artifact) # typing n) @ [Edit ?new, Wait 1000])"
    by simp
  also have "\<dots> = Inr (burst_end s ?new (clock s))"
    unfolding run_append s(1) using r(1) by simp
  finally have run: "run mount (Load (Some example_artifact) # typing (Suc n)) =
      Inr (burst_end s ?new (clock s))" .
  have nth: "js_nth (history s) (historyIndex s) = Some (replicate (Suc n) CHR ''A'')"
    unfolding s(3,4) js_nth_def by (simp add: nth_append)
  have w: "snapshot_worthy s ?new"
    unfolding snapshot_worthy_def nth using s(3)
    by (simp del: replicate.simps)
  have push: "push_snapshot (history s) (historyIndex s) ?new = history s @ [?new]"
    using Suc.prems by (simp add: push_snapshot_def js_slice0_def s(3,4) del: replicate.simps)
  have "history (burst_end s ?new (clock s)) =
      map (\<lambda>k. replicate (Suc k) CHR ''A'') [0..<Suc (Suc n)]"
    using burst_end_fields(4) [OF s(2), of ?new "clock s"] w push
    by (simp add: s(3) del: replicate.simps)
  moreover have "historyIndex (burst_end s ?new (clock s)) = int (Suc n)"
    using burst_end_fields(5) [OF s(2), of ?new "clock s"] w Suc.prems
    by (simp add: s(4))
  moreover have "editableCode (burst_end s ?new (clock s)) = ?new"
    using burst_end_fields(1) [OF s(2), of ?new "clock s"] by simp
  ultimately show ?case using run r(2) by blast
qed

text \<open>The theorem at the scenario of claim C2, and at the user edit that follows a typing
  session of 99 rounds, when the history is full.\<close>

theorem history_stack_invariants_witness:
  "(\<exists>s. run mount [Load (Some example_artifact), Edit ''AB'', Wait 1000] = Inr s \<and>
      history s \<noteq> [] \<and> 0 \<le> historyIndex s \<and> historyIndex s < int (length (history s)) \<and>
      length (history s) \<le> 100) \<and>
   (\<exists>s t. run mount (Load (Some example_artifact) # typing 99 @
        [Edit (replicate 101 CHR ''A'')]) = Inr s \<and>
      lp_inv s \<and> snapshotTimer s = Some t \<and> will_push t \<and> historyIndex s = 99 \<and>
      length (history s) = 100 \<and>
      history (fire_snapshot s) = tl (history s) @ [replicate 101 CHR ''A''] \<and>
      historyIndex (fire_snapshot s) = 99)"
proof -
  let ?es = "[Load (Some example_artifact), Edit ''AB'', Wait 1000]"
  let ?new = "replicate 101 CHR ''A''"
  let ?fs = "Load (Some example_artifact) # typing 99 @ [Edit ?new]"
  have "run mount ?es = Inr example_two"
    by (simp add: example_two_def)
  then have a: "\<exists>s. run mount ?es = Inr s \<and> history s \<noteq> []"
    by (simp add: example_two_fields)
  from typing_state [of 99] obtain s c where
    s: "run mount (Load (Some example_artifact) # typing 99) = Inr s" "settled c s"
      "history s = map (\<lambda>k. replicate (Suc k) CHR ''A'') [0..<Suc 99]"
      "historyIndex s = 99" "editableCode s = replicate (Suc 99) CHR ''A''"
    by auto
  have ne: "?new \<noteq> editableCode s"
    unfolding s(5) by (metis length_replicate numeral_eq_iff semiring_norm(89) Suc_numeral
        semiring_norm(2,8))
  let ?f = "pending s ?new (clock s) (clock s)"
  let ?t = "\<lparr>s_deadline = clock s + 1000, s_code = ?new, s_history = history s,
    s_index = historyIndex s\<rparr>"
  have e: "edit ?new s = ?f" using s(2) ne by (rule edit_settled)
  have "run mount ?fs = run mount ((Load (Some example_artifact) # typing 99) @ [Edit ?new])"
    by simp
  also have "\<dots> = Inr ?f"
    unfolding run_append s(1) using e by simp
  finally have run: "run mount ?fs = Inr ?f" .
  from inv_run [OF inv_mount, of ?fs] run have i: "lp_inv ?f" by simp
  have f: "snapshotTimer ?f = Some ?t" "historyIndex ?f = 99" "history ?f = history s"
    "editableCode ?f = ?new"
    by (simp_all add: pending_def s(4))
  have l: "length (history s) = 100" by (simp add: s(3))
  have "js_nth (history s) (historyIndex s) = Some (replicate (Suc 99) CHR ''A'')"
    unfolding s(3,4) js_nth_def by (simp add: nth_append del: replicate.simps)
  then have w: "will_push ?t"
    using ne l by (auto simp: will_push_def s(5))
  from history_stack_invariants [of ?es ?f ?t] a i f w l run show ?thesis
    by (simp del: replicate.simps)
qed

subsection \<open>Gaps between the two delays; saving; loading empty content\<close>

lemma tick_no_preview:
  assumes "previewTimer s = None"
  shows "previewTimer (tick s) = None \<and> isSyncing (tick s) = isSyncing s"
proof -
  let ?s1 = "s\<lparr>clock := clock s + 1\<rparr>"
  have t: "tick s = fire_snapshot_if_due ?s1"
    using assms by (simp add: tick_def Let_def snapshot_first_def fire_preview_if_due_def)
  show ?thesis
  proof (cases "snapshotTimer s")
    case None
    with t assms show ?thesis by (simp add: fire_snapshot_if_due_def)
  next
    case (Some t')
    then have "snapshotTimer ?s1 = Some t'" by simp
    from fire_snapshot_fields(4,5) [OF this] t assms Some show ?thesis
      by (simp add: fire_snapshot_if_due_def)
  qed
qed

lemma advance_no_preview:
  assumes "previewTimer s = None"
  shows "previewTimer (advance n s) = None \<and> isSyncing (advance n s) = isSyncing s"
  using assms
proof (induction n arbitrary: s)
  case 0
  then show ?case by simp
next
  case (Suc n)
  from tick_no_preview [OF Suc.prems] Suc.IH [of "tick s"] show ?case by simp
qed


lemma handleSave_fields:
  assumes "creation s = Some c" "prevCreationId s = Some (cid c)"
  shows "editableCode (handleSave s) = editableCode s"
    "debouncedCode (handleSave s) = editableCode s"
    "lastSaved (handleSave s) = Some (clock s)"
    "updates (handleSave s) = updates s @ [c\<lparr>html := editableCode s, timestamp := clock s\<rparr>]"
    "previewTimer (handleSave s) = None"
    "isSyncing (handleSave s) = isSyncing s"
  using assms
  by (simp_all add: handleSave_def onUpdate_def rerender_fields deps_defs)

text \<open>
  Claim C4, at the failing input: the example artifact is loaded, the buffer is edited to
  \<open>"AB"\<close>, and 100 ms later \<open>handleSave\<close> runs. The save stabilizes the buffer, records
  the time and calls \<open>onUpdate\<close> at once, and the pending preview-sync timer is cleared; but
  \<open>isSyncing\<close> is still true then and stays true however long one waits: the indicator
  shows \<open>Syncing\<close>, not \<open>Synced\<close>.
\<close>

theorem manual_save_leaves_syncing:
  "debouncedCode (handleSave (advance 100
      (edit ''AB'' (set_creation (Some example_artifact) mount)))) = ''AB'' \<and>
   lastSaved (handleSave (advance 100
      (edit ''AB'' (set_creation (Some example_artifact) mount)))) = Some 100 \<and>
   map html (updates (handleSave (advance 100
      (edit ''AB'' (set_creation (Some example_artifact) mount))))) = [''AB''] \<and>
   previewTimer (advance n (handleSave (advance 100
      (edit ''AB'' (set_creation (Some example_artifact) mount))))) = None \<and>
   isSyncing (advance n (handleSave (advance 100
      (edit ''AB'' (set_creation (Some example_artifact) mount)))))"
proof -
  let ?s0 = "set_creation (Some example_artifact) mount"
  let ?p = "pending ?s0 ''AB'' 0 100"
  have "advance 100 (pending ?s0 ''AB'' 0 0) = ?p"
    using advance_pending [of 0 100 0 ?s0 "''AB''"] by simp
  then have p: "advance 100 (edit ''AB'' ?s0) = ?p"
    using example_edit(1) [of "''AB''"] by simp
  have c: "creation ?p = Some example_artifact"
    "prevCreationId ?p = Some (cid example_artifact)"
    using example_loaded(1) by (simp_all add: pending_def settled_def)
  have q: "editableCode ?p = ''AB''" "clock ?p = 100" "updates ?p = []" "isSyncing ?p"
    by (simp_all add: pending_def example_loaded)
  note f = handleSave_fields [OF c]
  from advance_no_preview [OF f(5), of n] show ?thesis
    unfolding p by (simp add: f q)
qed

lemma load_empty_fields:
  assumes "prevCreationId s \<noteq> Some ''2''"
  shows "prevCreationId (set_creation (Some empty_artifact) s) = Some ''2''"
    "creation (set_creation (Some empty_artifact) s) = Some empty_artifact"
    "editableCode (set_creation (Some empty_artifact) s) = editableCode s"
    "debouncedCode (set_creation (Some empty_artifact) s) = debouncedCode s"
    "history (set_creation (Some empty_artifact) s) = history s"
    "historyIndex (set_creation (Some empty_artifact) s) = historyIndex s"
    "updates (set_creation (Some empty_artifact) s) = updates s"
    "clock (set_creation (Some empty_artifact) s) = clock s"
    "snapshotTimer (set_creation (Some empty_artifact) s) = snapshotTimer s"
    "previewTimer (set_creation (Some empty_artifact) s) =
       (if editableCode s = debouncedCode s then None
        else Some \<lparr>p_deadline = clock s + 800, p_code = editableCode s,
                    p_creation = Some empty_artifact\<rparr>)"
  using assms
  by (simp_all add: set_creation_def rerender_fields deps_defs empty_artifact_def)

text \<open>
  Claim C5, at the failing input. The example artifact is loaded and then the artifact with
  id \<open>"2"\<close> and empty content. The component records the new id, but buffer, stabilized
  content and history are still those of the example artifact, not \<open>""\<close> and \<open>[""]\<close>; a
  save then hands \<open>onUpdate\<close> the artifact \<open>"2"\<close> with the content \<open>"A"\<close> of the example
  artifact. When the empty artifact is loaded 100 ms after an edit to \<open>"AB"\<close>, the
  preview-sync timer, armed again for the new artifact, does the same with \<open>"AB"\<close> 800 ms
  later, without any save.
\<close>

theorem load_empty_keeps_previous_content:
  "prevCreationId (set_creation (Some empty_artifact)
      (set_creation (Some example_artifact) mount)) = Some ''2'' \<and>
   editableCode (set_creation (Some empty_artifact)
      (set_creation (Some example_artifact) mount)) = ''A'' \<and>
   debouncedCode (set_creation (Some empty_artifact)
      (set_creation (Some example_artifact) mount)) = ''A'' \<and>
   history (set_creation (Some empty_artifact)
      (set_creation (Some example_artifact) mount)) = [''A''] \<and>
   historyIndex (set_creation (Some empty_artifact)
      (set_creation (Some example_artifact) mount)) = 0 \<and>
   map cid (updates (handleSave (set_creation (Some empty_artifact)
      (set_creation (Some example_artifact) mount)))) = [''2''] \<and>
   map html (updates (handleSave (set_creation (Some empty_artifact)
      (set_creation (Some example_artifact) mount)))) = [''A''] \<and>
   map cid (updates (advance 800 (set_creation (Some empty_artifact)
      (advance 100 (edit ''AB'' (set_creation (Some example_artifact) mount)))))) = [''2''] \<and>
   map html (updates (advance 800 (set_creation (Some empty_artifact)
      (advance 100 (edit ''AB'' (set_creation (Some example_artifact) mount)))))) = [''AB'']"
proof -
  let ?s0 = "set_creation (Some example_artifact) mount"
  define a where "a = set_creation (Some empty_artifact) ?s0"
  have p0: "prevCreationId ?s0 \<noteq> Some ''2''"
    using example_loaded(1) by (simp add: settled_def example_artifact_def)
  note fa = load_empty_fields [OF p0, folded a_def]
  have a1: "prevCreationId a = Some ''2''" "editableCode a = ''A''" "debouncedCode a = ''A''"
    "history a = [''A'']" "historyIndex a = 0" "updates a = []"
    using fa by (simp_all add: example_loaded)
  have "prevCreationId a = Some (cid empty_artifact)"
    using fa(1) by (simp add: empty_artifact_def)
  note sv = handleSave_fields(4) [OF fa(2) this]
  have a2: "map cid (updates (handleSave a)) = [''2'']"
    "map html (updates (handleSave a)) = [''A'']"
    using sv a1 by (simp_all add: empty_artifact_def)
  let ?p = "pending ?s0 ''AB'' 0 100"
  have "advance 100 (pending ?s0 ''AB'' 0 0) = ?p"
    using advance_pending [of 0 100 0 ?s0 "''AB''"] by simp
  then have p: "advance 100 (edit ''AB'' ?s0) = ?p"
    using example_edit(1) [of "''AB''"] by simp
  define b where "b = set_creation (Some empty_artifact) ?p"
  have pp: "prevCreationId ?p \<noteq> Some ''2''"
    using p0 by (simp add: pending_def)
  note fb = load_empty_fields [OF pp, folded b_def]
  let ?tp = "\<lparr>p_deadline = 900, p_code = ''AB'', p_creation = Some empty_artifact\<rparr>"
  let ?ts = "\<lparr>s_deadline = 1000, s_code = ''AB'', s_history = [''A''], s_index = 0\<rparr>"
  have b1: "previewTimer b = Some ?tp" "snapshotTimer b = Some ?ts" "clock b = 100"
    "updates b = []" "prevCreationId b = Some ''2''" "editableCode b = ''AB''"
    using fb by (simp_all add: pending_def example_loaded)
  have "advance 799 b = b\<lparr>clock := clock b + 799\<rparr>"
    by (rule advance_idle) (simp_all add: b1)
  then have i: "advance 799 b = b\<lparr>clock := 899\<rparr>" by (simp add: b1)
  define s1 where "s1 = b\<lparr>clock := 900\<rparr>"
  have s1: "previewTimer s1 = Some ?tp" "snapshotTimer s1 = Some ?ts" "clock s1 = 900"
    "updates s1 = []" "prevCreationId s1 = Some ''2''"
    by (simp_all add: s1_def b1)
  define u where "u = empty_artifact\<lparr>html := ''AB'', timestamp := 900\<rparr>"
  define s2 where "s2 = (onUpdate u
      (s1\<lparr>previewTimer := None, debouncedCode := ''AB'', isSyncing := False\<rparr>))
      \<lparr>lastSaved := Some 900\<rparr>"
  have fp: "fire_preview s1 = rerender s1 s2"
    by (simp add: fire_preview_def s1 Let_def s2_def u_def empty_artifact_def)
  have s2: "updates s2 = [u]" "clock s2 = 900" "snapshotTimer s2 = Some ?ts"
    "creation s2 = Some u" "prevCreationId s2 = Some ''2''" "cid u = ''2''" "html u = ''AB''"
    "editableCode s2 = editableCode s1" "historyVer s2 = historyVer s1"
    "historyIndex s2 = historyIndex s1"
    by (simp_all add: s2_def onUpdate_def s1 u_def empty_artifact_def)
  have f: "updates (fire_preview s1) = [u]" "clock (fire_preview s1) = 900"
    "snapshotTimer (fire_preview s1) = Some ?ts"
    unfolding fp by (simp_all add: rerender_fields deps_defs s2)
  have "tick (b\<lparr>clock := 899\<rparr>) = fire_snapshot_if_due (fire_preview s1)"
    by (simp add: tick_def Let_def snapshot_first_def fire_preview_if_due_def b1
        s1_def [symmetric])
      (simp add: s1_def b1)
  also have "\<dots> = fire_preview s1"
    by (simp add: fire_snapshot_if_due_def f)
  finally have t: "tick (b\<lparr>clock := 899\<rparr>) = fire_preview s1" .
  have "advance 800 b = tick (advance 799 b)"
    using advance_add [of 799 1 b] by simp
  then have "updates (advance 800 b) = [u]"
    by (simp add: i t f)
  then have b2: "map cid (updates (advance 800 b)) = [''2'']"
    "map html (updates (advance 800 b)) = [''AB'']"
    by (simp_all add: s2)
  show ?thesis
    unfolding p a_def [symmetric] b_def [symmetric] using a1 a2 b2 by simp
qed

subsection \<open>Undo then redo; the gate of the snapshot capture\<close>

text \<open>
  Claim C6 as stated fails: after the scenario of claim C2 the buffer is edited to
  \<open>"ABC"\<close>, and before that edit has settled undo is available; undo and then redo leave
  the buffer at the snapshot \<open>"AB"\<close>, not at the pre-undo content \<open>"ABC"\<close>.
\<close>

theorem undo_redo_unsettled_counterexample:
  "undo_available (edit ''ABC'' (advance 1000
      (edit ''AB'' (set_creation (Some example_artifact) mount)))) \<and>
   editableCode (edit ''ABC'' (advance 1000
      (edit ''AB'' (set_creation (Some example_artifact) mount)))) = ''ABC'' \<and>
   map_sum id editableCode (undo_redo (edit ''ABC'' (advance 1000
      (edit ''AB'' (set_creation (Some example_artifact) mount))))) = Inr ''AB''"
proof -
  let ?e = "edit ''ABC'' example_two"
  have "?e = pending example_two ''ABC'' (clock example_two) (clock example_two)"
    by (rule edit_settled [OF example_two_fields(1)]) (simp add: example_two_fields)
  then have f: "editableCode ?e = ''ABC''" "history ?e = [''A'', ''AB'']" "historyIndex ?e = 1"
    by (simp_all add: burst_fields example_two_fields)
  have "js_nth (history ?e) (historyIndex ?e - 1) = Some ''A''"
    by (simp add: f js_nth_def)
  from handleUndo_fields [OF _ this] f obtain s2 where
    s2: "handleUndo ?e = Inr s2" "historyIndex s2 = 0" "history s2 = [''A'', ''AB'']"
    by auto
  have "js_nth (history s2) (historyIndex s2 + 1) = Some ''AB''"
    by (simp add: s2 js_nth_def)
  from handleRedo_fields [OF _ this] s2 obtain s3 where
    s3: "handleRedo s2 = Inr s3" "editableCode s3 = ''AB''"
    by auto
  have "undo_redo ?e = Inr s3" by (simp add: undo_redo_def s2 s3)
  with f s3 show ?thesis
    unfolding example_two_def [symmetric]
    by (simp add: undo_available_def)
qed

text \<open>
  Claim C6, amended. In every state in which undo is available and the buffer equals the
  snapshot at the current index (the latest edit has settled into the history), undo
  followed at once by redo restores the buffer, the index and the history.
\<close>

theorem undo_redo_roundtrip:
  assumes "undo_available s" and "js_nth (history s) (historyIndex s) = Some (editableCode s)"
  shows "\<exists>s'. undo_redo s = Inr s' \<and> editableCode s' = editableCode s \<and>
     historyIndex s' = historyIndex s \<and> history s' = history s"
proof -
  from assms have i: "0 < historyIndex s" "historyIndex s < int (length (history s))"
    by (auto simp: undo_available_def js_nth_def split: if_splits)
  then have "js_nth (history s) (historyIndex s - 1) =
      Some (history s ! nat (historyIndex s - 1))"
    by (simp add: js_nth_def)
  from handleUndo_fields [OF i(1) this] obtain s1 where
    s1: "handleUndo s = Inr s1" "historyIndex s1 = historyIndex s - 1" "history s1 = history s"
    by blast
  have "historyIndex s1 < int (length (history s1)) - 1"
    "js_nth (history s1) (historyIndex s1 + 1) = Some (editableCode s)"
    using i assms(2) by (simp_all add: s1)
  from handleRedo_fields [OF this] obtain s2 where
    s2: "handleRedo s1 = Inr s2" "editableCode s2 = editableCode s"
      "historyIndex s2 = historyIndex s1 + 1" "history s2 = history s1"
    by blast
  then have "undo_redo s = Inr s2" by (simp add: undo_redo_def s1)
  with s1 s2 show ?thesis by simp
qed

text \<open>The theorem at the state of the scenario of claim C2.\<close>

theorem undo_redo_roundtrip_witness:
  "undo_available example_two \<and>
   js_nth (history example_two) (historyIndex example_two) = Some (editableCode example_two) \<and>
   (\<exists>s'. undo_redo example_two = Inr s' \<and> editableCode s' = ''AB'')"
proof -
  have h: "undo_available example_two"
    "js_nth (history example_two) (historyIndex example_two) = Some (editableCode example_two)"
    by (simp_all add: example_two_fields undo_available_def js_nth_def)
  from undo_redo_roundtrip [OF h] h show ?thesis by (auto simp: example_two_fields)
qed

text \<open>
  Claim C7 as stated fails: the example artifact is loaded and the user clears the buffer.
  The edit is a user edit (\<open>isInternalChange\<close> is false and the snapshot timer is armed) and
  the buffer differs from the snapshot \<open>"A"\<close> at the current index, yet when the timer has
  fired the history is unchanged and \<open>setHistory\<close> was not called.
\<close>

theorem empty_buffer_not_pushed_counterexample:
  "\<not> isInternalChange (edit [] (set_creation (Some example_artifact) mount)) \<and>
   snapshotTimer (edit [] (set_creation (Some example_artifact) mount)) \<noteq> None \<and>
   js_nth (history (edit [] (set_creation (Some example_artifact) mount)))
     (historyIndex (edit [] (set_creation (Some example_artifact) mount))) = Some ''A'' \<and>
   editableCode (edit [] (set_creation (Some example_artifact) mount)) = [] \<and>
   history (advance 1000 (edit [] (set_creation (Some example_artifact) mount))) = [''A''] \<and>
   historyVer (advance 1000 (edit [] (set_creation (Some example_artifact) mount))) =
     historyVer (edit [] (set_creation (Some example_artifact) mount))"
proof -
  let ?s0 = "set_creation (Some example_artifact) mount"
  have e: "edit [] ?s0 = pending ?s0 [] 0 0"
    using example_edit(1) [of "[]"] by simp
  have a: "advance 1000 (pending ?s0 [] 0 0) = burst_end ?s0 [] 0"
    by (rule advance_1000_pending [OF example_loaded(1)])
  have p: "\<not> isInternalChange (pending ?s0 [] 0 0)"
    "snapshotTimer (pending ?s0 [] 0 0) \<noteq> None"
    using example_loaded(1) by (simp_all add: settled_def pending_def)
  show ?thesis
    unfolding e a
    using burst_end_fields(4,6) [OF example_loaded(1), of "[]" 0] p
    by (simp add: example_worthy example_loaded js_nth_def burst_fields)
qed

text \<open>
  Claim C7, amended. When the snapshot-capture timer fires, it pushes the buffer it was
  armed with (truncating the entries after the index, dropping the oldest beyond 100,
  advancing the index up to 99) if and only if that buffer is non-empty, the history is
  non-empty and the buffer differs from the snapshot at the index; otherwise history and
  index are unchanged, so an edit that reproduces the current snapshot creates no entry.
  A user edit that changes the buffer arms the timer with the new buffer, the history and
  the index. After an undo or redo that changed the state no timer is armed at all and the
  flag \<open>isInternalChange\<close> is already false again: the effect consumed it on the render.
\<close>

theorem snapshot_capture_gate:
  "(snapshotTimer s = Some t \<longrightarrow>
      history (fire_snapshot s) =
        (if s_code t \<noteq> [] \<and> s_history t \<noteq> [] \<and>
            Some (s_code t) \<noteq> js_nth (s_history t) (s_index t)
         then push_snapshot (history s) (s_index t) (s_code t) else history s) \<and>
      historyIndex (fire_snapshot s) =
        (if s_code t \<noteq> [] \<and> s_history t \<noteq> [] \<and>
            Some (s_code t) \<noteq> js_nth (s_history t) (s_index t)
         then min (historyIndex s + 1) 99 else historyIndex s)) \<and>
   (\<not> isInternalChange s1 \<and> new \<noteq> editableCode s1 \<longrightarrow>
      snapshotTimer (edit new s1) =
        Some \<lparr>s_deadline = clock s1 + 1000, s_code = new, s_history = history s1,
               s_index = historyIndex s1\<rparr>) \<and>
   (handleUndo s2 = Inr s2' \<and> s2' \<noteq> s2 \<longrightarrow>
      snapshotTimer s2' = None \<and> \<not> isInternalChange s2' \<and> history s2' = history s2) \<and>
   (handleRedo s3 = Inr s3' \<and> s3' \<noteq> s3 \<longrightarrow>
      snapshotTimer s3' = None \<and> \<not> isInternalChange s3' \<and> history s3' = history s3)"
proof (intro conjI impI)
  assume "snapshotTimer s = Some t"
  from fire_snapshot_fields(1,2) [OF this]
  show "history (fire_snapshot s) =
        (if s_code t \<noteq> [] \<and> s_history t \<noteq> [] \<and>
            Some (s_code t) \<noteq> js_nth (s_history t) (s_index t)
         then push_snapshot (history s) (s_index t) (s_code t) else history s)"
    and "historyIndex (fire_snapshot s) =
        (if s_code t \<noteq> [] \<and> s_history t \<noteq> [] \<and>
            Some (s_code t) \<noteq> js_nth (s_history t) (s_index t)
         then min (historyIndex s + 1) 99 else historyIndex s)"
    by (simp_all add: will_push_def)
next
  assume "\<not> isInternalChange s1 \<and> new \<noteq> editableCode s1"
  then show "snapshotTimer (edit new s1) =
        Some \<lparr>s_deadline = clock s1 + 1000, s_code = new, s_history = history s1,
               s_index = historyIndex s1\<rparr>"
    by (auto simp: edit_def rerender_fields deps_defs)
next
  assume a: "handleUndo s2 = Inr s2' \<and> s2' \<noteq> s2"
  then have i: "0 < historyIndex s2" by (auto simp: handleUndo_def split: if_splits)
  with a obtain v where "js_nth (history s2) (historyIndex s2 - 1) = Some v"
    by (auto simp: handleUndo_def Let_def split: option.splits)
  from handleUndo_fields [OF i this] a
  show "snapshotTimer s2' = None" "\<not> isInternalChange s2'" "history s2' = history s2"
    by auto
next
  assume a: "handleRedo s3 = Inr s3' \<and> s3' \<noteq> s3"
  then have i: "historyIndex s3 < int (length (history s3)) - 1"
    by (auto simp: handleRedo_def split: if_splits)
  with a obtain v where "js_nth (history s3) (historyIndex s3 + 1) = Some v"
    by (auto simp: handleRedo_def Let_def split: option.splits)
  from handleRedo_fields [OF i this] a
  show "snapshotTimer s3' = None" "\<not> isInternalChange s3'" "history s3' = history s3"
    by auto
qed

text \<open>The theorem after the scenario of claim C2: at the edit to \<open>"ABC"\<close> that arms the
  timer, and at an undo followed by a redo.\<close>

theorem snapshot_capture_gate_witness:
  "\<not> isInternalChange example_two \<and> ''ABC'' \<noteq> editableCode example_two \<and>
   snapshotTimer (edit ''ABC'' example_two) =
     Some \<lparr>s_deadline = 2000, s_code = ''ABC'', s_history = [''A'', ''AB''], s_index = 1\<rparr> \<and>
   history (fire_snapshot (edit ''ABC'' example_two)) = [''A'', ''AB'', ''ABC''] \<and>
   historyIndex (fire_snapshot (edit ''ABC'' example_two)) = 2 \<and>
   (\<exists>u r. handleUndo example_two = Inr u \<and> u \<noteq> example_two \<and>
      snapshotTimer u = None \<and> \<not> isInternalChange u \<and>
      handleRedo u = Inr r \<and> r \<noteq> u \<and> snapshotTimer r = None \<and> \<not> isInternalChange r)"
proof -
  let ?t = "\<lparr>s_deadline = 2000, s_code = ''ABC'', s_history = [''A'', ''AB''], s_index = 1\<rparr>"
  let ?e = "edit ''ABC'' example_two"
  note x = example_two_fields
  have b: "\<not> isInternalChange example_two \<and> ''ABC'' \<noteq> editableCode example_two"
    by (simp add: x)
  have "js_nth (history example_two) (historyIndex example_two - 1) = Some ''A''"
    by (simp add: x js_nth_def)
  from handleUndo_fields [OF _ this] x obtain u where
    u: "handleUndo example_two = Inr u" "historyIndex u = 0" "history u = [''A'', ''AB'']"
    by auto
  with x have u': "handleUndo example_two = Inr u \<and> u \<noteq> example_two" by auto
  have "js_nth (history u) (historyIndex u + 1) = Some ''AB''"
    by (simp add: u js_nth_def)
  from handleRedo_fields [OF _ this] u obtain r where
    r: "handleRedo u = Inr r" "historyIndex r = 1"
    by auto
  with u have r': "handleRedo u = Inr r \<and> r \<noteq> u" by auto
  note g = snapshot_capture_gate [of ?e ?t example_two "''ABC''" example_two u u r]
  from g b have a: "snapshotTimer ?e = Some ?t" by (simp add: x)
  have h: "history ?e = [''A'', ''AB'']" "historyIndex ?e = 1"
    by (simp_all add: edit_def rerender_fields deps_defs x)
  from g a h have "history (fire_snapshot ?e) = [''A'', ''AB'', ''ABC'']"
    "historyIndex (fire_snapshot ?e) = 2"
    by (simp_all add: push_snapshot_def js_slice0_def js_nth_def)
  with g a b u' r' show ?thesis by simp
qed

subsection \<open>The preview frames\<close>

text \<open>
  Claim C8 as stated fails: the stabilized contents \<open>"AB"\<close> and \<open>"CD"\<close> differ and have the
  same key.
\<close>

theorem iframe_key_counterexample:
  "debouncedCode (initial\<lparr>debouncedCode := ''AB''\<rparr>) \<noteq>
     debouncedCode (initial\<lparr>debouncedCode := ''CD''\<rparr>) \<and>
   iframe_key (initial\<lparr>debouncedCode := ''AB''\<rparr>) =
     iframe_key (initial\<lparr>debouncedCode := ''CD''\<rparr>)"
  by (simp add: iframe_key_def)

text \<open>
  Claim C8, amended. The key of the editor-view frame is the length of the stabilized
  content: equal stabilized contents have equal keys, and two stabilized contents have
  different keys exactly when their lengths differ.
\<close>

theorem iframe_key_by_length:
  "(debouncedCode s = debouncedCode s' \<longrightarrow> iframe_key s = iframe_key s') \<and>
   (iframe_key s \<noteq> iframe_key s' \<longleftrightarrow> length (debouncedCode s) \<noteq> length (debouncedCode s'))"
  by (simp add: iframe_key_def)

text \<open>The theorem at two states with the same stabilized content.\<close>

theorem iframe_key_by_length_witness:
  "debouncedCode (initial\<lparr>debouncedCode := ''AB'', isSyncing := True\<rparr>) =
     debouncedCode (initial\<lparr>debouncedCode := ''AB''\<rparr>) \<and>
   iframe_key (initial\<lparr>debouncedCode := ''AB'', isSyncing := True\<rparr>) =
     iframe_key (initial\<lparr>debouncedCode := ''AB''\<rparr>)"
  using iframe_key_by_length [of "initial\<lparr>debouncedCode := ''AB'', isSyncing := True\<rparr>"
      "initial\<lparr>debouncedCode := ''AB''\<rparr>"]
  by simp

lemma editor_tokens:
  "split_spaces [] editor_sandbox =
     [''allow-scripts'', ''allow-forms'', ''allow-popups'', ''allow-modals'',
      ''allow-same-origin'']"
  by (simp add: editor_sandbox_def)

lemma preview_tokens:
  "split_spaces [] preview_sandbox =
     [''allow-scripts'', ''allow-forms'', ''allow-popups'', ''allow-modals'',
      ''allow-same-origin'']"
  by (simp add: preview_sandbox_def)

text \<open>
  Claim C9 as stated fails: both frames carry the token \<open>allow-same-origin\<close>, so the
  permissions are not exactly scripts, forms, popups and modals.
\<close>

theorem sandbox_same_origin_counterexample:
  "''allow-same-origin'' \<in> sandbox_tokens editor_sandbox \<and>
   ''allow-same-origin'' \<in> sandbox_tokens preview_sandbox \<and>
   sandbox_tokens editor_sandbox \<noteq>
     {''allow-scripts'', ''allow-forms'', ''allow-popups'', ''allow-modals''} \<and>
   sandbox_tokens preview_sandbox \<noteq>
     {''allow-scripts'', ''allow-forms'', ''allow-popups'', ''allow-modals''}"
proof -
  have e: "''allow-same-origin'' \<in> sandbox_tokens editor_sandbox"
    by (simp add: sandbox_tokens_def editor_tokens)
  have p: "''allow-same-origin'' \<in> sandbox_tokens preview_sandbox"
    by (simp add: sandbox_tokens_def preview_tokens)
  have n: "''allow-same-origin'' \<notin>
      {''allow-scripts'', ''allow-forms'', ''allow-popups'', ''allow-modals''}"
    by simp
  have "sandbox_tokens editor_sandbox \<noteq>
      {''allow-scripts'', ''allow-forms'', ''allow-popups'', ''allow-modals''}"
  proof
    assume "sandbox_tokens editor_sandbox =
      {''allow-scripts'', ''allow-forms'', ''allow-popups'', ''allow-modals''}"
    with e have "''allow-same-origin'' \<in>
      {''allow-scripts'', ''allow-forms'', ''allow-popups'', ''allow-modals''}"
      by (simp only:)
    with n show False by contradiction
  qed
  moreover have "sandbox_tokens preview_sandbox \<noteq>
      {''allow-scripts'', ''allow-forms'', ''allow-popups'', ''allow-modals''}"
  proof
    assume "sandbox_tokens preview_sandbox =
      {''allow-scripts'', ''allow-forms'', ''allow-popups'', ''allow-modals''}"
    with p have "''allow-same-origin'' \<in>
      {''allow-scripts'', ''allow-forms'', ''allow-popups'', ''allow-modals''}"
      by (simp only:)
    with n show False by contradiction
  qed
  ultimately show ?thesis using e p by (simp only: simp_thms)
qed

text \<open>
  Claim C9, amended. The sandbox of the editor-view frame and of the preview frame permits
  exactly script execution, form submission, popups, modal dialogs and same-origin access.
\<close>

theorem sandbox_permissions:
  "sandbox_tokens editor_sandbox =
     {''allow-scripts'', ''allow-forms'', ''allow-popups'', ''allow-modals'',
      ''allow-same-origin''} \<and>
   sandbox_tokens preview_sandbox =
     {''allow-scripts'', ''allow-forms'', ''allow-popups'', ''allow-modals'',
      ''allow-same-origin''}"
  by (simp add: sandbox_tokens_def editor_tokens preview_tokens)

subsection \<open>No empty snapshot\<close>

lemma set_js_slice0: "set (js_slice0 h e) \<subseteq> set h"
  by (simp add: js_slice0_def set_take_subset)

lemma set_push_snapshot: "set (push_snapshot h i c) \<subseteq> insert c (set h)"
proof -
  let ?n = "js_slice0 h (i + 1) @ [c]"
  have n: "set ?n \<subseteq> insert c (set h)"
    using set_js_slice0 [of h "i + 1"] by auto
  have t: "set (tl ?n) \<subseteq> set ?n"
    by (cases ?n) auto
  have "push_snapshot h i c = ?n \<or> push_snapshot h i c = tl ?n"
    by (simp add: push_snapshot_def Let_def)
  with n t show ?thesis by fastforce
qed

lemma rerender_nonempty: "nonempty_entries r \<Longrightarrow> nonempty_entries (rerender p r)"
  by (auto simp: nonempty_entries_def rerender_history dest: load_resets_html)

lemma fire_preview_nonempty: "nonempty_entries s \<Longrightarrow> nonempty_entries (fire_preview s)"
proof (cases "previewTimer s")
  case None
  then show "nonempty_entries s \<Longrightarrow> ?thesis" by (simp add: fire_preview_def)
next
  case (Some t)
  assume "nonempty_entries s"
  then show ?thesis
    unfolding fire_preview_def Some option.case Let_def
    by (intro rerender_nonempty)
      (simp add: nonempty_entries_def onUpdate_def split: option.splits)
qed

lemma fire_snapshot_nonempty:
  assumes "nonempty_entries s"
  shows "nonempty_entries (fire_snapshot s)"
proof (cases "snapshotTimer s")
  case None
  with assms show ?thesis by (simp add: fire_snapshot_def)
next
  case (Some t)
  show ?thesis
  proof (cases "will_push t")
    case True
    then have c: "s_code t \<noteq> []" by (simp add: will_push_def)
    have "[] \<notin> set (push_snapshot (history s) (s_index t) (s_code t))"
    proof
      assume "[] \<in> set (push_snapshot (history s) (s_index t) (s_code t))"
      with set_push_snapshot have "[] \<in> insert (s_code t) (set (history s))"
        by (rule subsetD)
      with c assms show False by (simp add: nonempty_entries_def)
    qed
    with True show ?thesis
      by (simp add: nonempty_entries_def fire_snapshot_fields(1) [OF Some])
  next
    case False
    with assms show ?thesis
      by (simp add: nonempty_entries_def fire_snapshot_fields(1) [OF Some])
  qed
qed

lemma nonempty_clock: "nonempty_entries (s\<lparr>clock := n\<rparr>) = nonempty_entries s"
  by (simp add: nonempty_entries_def)

lemma tick_nonempty: "nonempty_entries s \<Longrightarrow> nonempty_entries (tick s)"
  by (simp add: tick_def Let_def fire_preview_if_due_def fire_snapshot_if_due_def
      nonempty_clock fire_preview_nonempty fire_snapshot_nonempty split: option.splits)

lemma advance_nonempty: "nonempty_entries s \<Longrightarrow> nonempty_entries (advance n s)"
  by (induction n arbitrary: s) (simp_all add: tick_nonempty)

lemma handleUndo_nonempty:
  assumes "nonempty_entries s" "handleUndo s = Inr s'"
  shows "nonempty_entries s'"
proof (cases "0 < historyIndex s")
  case False
  with assms show ?thesis by (simp add: handleUndo_def)
next
  case True
  with assms(2) obtain v where
    "s' = rerender s (s\<lparr>isInternalChange := True, historyIndex := historyIndex s - 1,
       editableCode := v\<rparr>)"
    by (auto simp: handleUndo_def Let_def split: option.splits)
  with assms(1) show ?thesis
    by (simp add: nonempty_entries_def rerender_history deps_defs)
qed

lemma handleRedo_nonempty:
  assumes "nonempty_entries s" "handleRedo s = Inr s'"
  shows "nonempty_entries s'"
proof (cases "historyIndex s < int (length (history s)) - 1")
  case False
  with assms show ?thesis by (simp add: handleRedo_def)
next
  case True
  with assms(2) obtain v where
    "s' = rerender s (s\<lparr>isInternalChange := True, historyIndex := historyIndex s + 1,
       editableCode := v\<rparr>)"
    by (auto simp: handleRedo_def Let_def split: option.splits)
  with assms(1) show ?thesis
    by (simp add: nonempty_entries_def rerender_history deps_defs)
qed

lemma handleSave_nonempty: "nonempty_entries s \<Longrightarrow> nonempty_entries (handleSave s)"
proof (cases "creation s")
  case None
  then show "nonempty_entries s \<Longrightarrow> ?thesis" by (simp add: handleSave_def)
next
  case (Some c)
  assume "nonempty_entries s"
  then show ?thesis
    unfolding handleSave_def Some option.case
    by (intro rerender_nonempty) (simp add: nonempty_entries_def onUpdate_def)
qed

lemma step_nonempty:
  assumes "nonempty_entries s" "step e s = Inr s'"
  shows "nonempty_entries s'"
proof (cases e)
  case (Load c)
  have "nonempty_entries (set_creation c s)"
    unfolding set_creation_def using assms(1)
    by (intro rerender_nonempty) (simp add: nonempty_entries_def)
  with Load assms(2) show ?thesis by simp
next
  case ParentRender
  have "nonempty_entries (parent_render s)"
    unfolding parent_render_def using assms(1)
    by (intro rerender_nonempty) (simp add: nonempty_entries_def)
  with ParentRender assms(2) show ?thesis by simp
next
  case (Edit new)
  have "nonempty_entries (edit new s)"
    unfolding edit_def using assms(1)
    by (intro rerender_nonempty) (simp add: nonempty_entries_def)
  with Edit assms(2) show ?thesis by simp
next
  case Undo
  with assms show ?thesis by (simp add: handleUndo_nonempty)
next
  case Redo
  with assms show ?thesis by (simp add: handleRedo_nonempty)
next
  case Save
  with assms show ?thesis using handleSave_nonempty [of s] by simp
next
  case (Wait n)
  with assms show ?thesis using advance_nonempty [of s n] by simp
qed

text \<open>
  Claim C10. After every sequence of events from the mounted component, no entry of the
  history is the empty string, and every single event keeps that property, from any state.
  Loading an artifact with empty content leaves the history as it is; a snapshot timer armed
  with an empty buffer leaves the history as it is when it fires, without calling
  \<open>setHistory\<close>, whatever the snapshot at the index.
\<close>

theorem history_entries_nonempty:
  "(\<exists>s. run mount es = Inr s \<and> [] \<notin> set (history s)) \<and>
   ([] \<notin> set (history s2) \<and> step e s2 = Inr s2' \<longrightarrow> [] \<notin> set (history s2')) \<and>
   (html c = [] \<longrightarrow> history (set_creation (Some c) s0) = history s0) \<and>
   (snapshotTimer s1 = Some t \<and> s_code t = [] \<longrightarrow>
      history (fire_snapshot s1) = history s1 \<and>
      historyVer (fire_snapshot s1) = historyVer s1)"
proof (intro conjI impI)
  from inv_run [OF inv_mount, of es] show "\<exists>s. run mount es = Inr s \<and> [] \<notin> set (history s)"
    by (auto simp: lp_inv_def hist_inv_def)
next
  assume "[] \<notin> set (history s2) \<and> step e s2 = Inr s2'"
  then show "[] \<notin> set (history s2')"
    using step_nonempty [of s2 e s2'] by (simp add: nonempty_entries_def)
next
  assume "html c = []"
  then show "history (set_creation (Some c) s0) = history s0"
    by (simp add: set_creation_def rerender_fields deps_defs)
next
  assume a: "snapshotTimer s1 = Some t \<and> s_code t = []"
  then have "\<not> will_push t" by (simp add: will_push_def)
  with a fire_snapshot_fields(1,3) [of s1 t]
  show "history (fire_snapshot s1) = history s1"
    "historyVer (fire_snapshot s1) = historyVer s1"
    by simp_all
qed

text \<open>The theorem at the run that loads the example artifact and clears the buffer, at a
  user edit after the scenario of claim C2, at a load of empty content after it, and at the
  timer armed on mount.\<close>

theorem history_entries_nonempty_witness:
  "(\<exists>s. run mount [Load (Some example_artifact), Edit [], Wait 1000] = Inr s \<and>
      history s = [''A'']) \<and>
   [] \<notin> set (history example_two) \<and>
   step (Edit ''ABC'') example_two = Inr (edit ''ABC'' example_two) \<and>
   [] \<notin> set (history (edit ''ABC'' example_two)) \<and>
   html (example_artifact\<lparr>html := []\<rparr>) = [] \<and>
   history (set_creation (Some (example_artifact\<lparr>html := []\<rparr>)) example_two) =
     [''A'', ''AB''] \<and>
   snapshotTimer mount \<noteq> None \<and> s_code (the (snapshotTimer mount)) = [] \<and>
   history (fire_snapshot mount) = []"
proof -
  let ?es = "[Load (Some example_artifact), Edit [], Wait 1000]"
  let ?t = "\<lparr>s_deadline = 1000, s_code = [], s_history = [], s_index = -1\<rparr>"
  have r: "run mount ?es = Inr (burst_end (set_creation (Some example_artifact) mount) [] 0)"
    using example_edit(2) [of "[]"] by simp
  have h: "history (burst_end (set_creation (Some example_artifact) mount) [] 0) = [''A'']"
    using burst_end_fields(4) [OF example_loaded(1), of "[]" 0]
    by (simp add: example_worthy example_loaded)
  have m: "snapshotTimer mount = Some ?t \<and> s_code ?t = []" "history mount = []"
    by (simp_all add: mount_eq initial_def)
  have b: "[] \<notin> set (history example_two) \<and>
      step (Edit ''ABC'') example_two = Inr (edit ''ABC'' example_two)"
    "history example_two = [''A'', ''AB'']"
    by (simp_all add: example_two_fields)
  from history_entries_nonempty [of ?es example_two "Edit ''ABC''" "edit ''ABC'' example_two"
      "example_artifact\<lparr>html := []\<rparr>" example_two mount ?t] r h m b
  show ?thesis by simp
qed

subsection \<open>Bursts with gaps below the snapshot delay\<close>














end
